theory Spec2Isabelle
  imports Complex_Main
begin

section \<open>keithleygui: the control flow of main.py\<close>

text \<open>
  The program is a Qt front end of the keithley2600 driver. The theory embeds the
  functions of \<^verbatim>\<open>src/keithleygui/main.py\<close> that decide something themselves:
  \<^verbatim>\<open>_get_smus\<close>, \<^verbatim>\<open>_string_to_vd\<close>, the two selector slots of
  \<^verbatim>\<open>SweepSettingsWidget\<close>, \<^verbatim>\<open>on_sweep_clicked\<close>,
  \<^verbatim>\<open>MeasureThread.run\<close>, \<^verbatim>\<open>on_start_realtime_clicked\<close> and
  \<^verbatim>\<open>RealtimeMeasureThread\<close>. What the driver, the instrument, numpy, the random
  generator, the clock and the user do is an input of the model. Python floats are read as
  real numbers, except where a comparison decides a branch on the last digit of a float
  quotient: the division of the integration-time bounds is an input too. Messages that
  the source writes in Chinese are constructors of their own.
\<close>

subsection \<open>Exceptions\<close>

text \<open>
  \<^verbatim>\<open>pyvisa.VisaIOError\<close> is the one exception class the source tells apart
  (line 1247); all others are caught as \<^verbatim>\<open>Exception\<close>. The exceptions that
  main.py creates itself have a constructor each:
  \<^item> \<open>DeviceNotConnected\<close>: line 1200, "device not connected";
  \<^item> \<open>NoSmuObject\<close>: line 1205, "cannot get the SMU object";
  \<^item> \<open>RepeatedFailure msg\<close>: line 1267, "measurement failed several times, stopping",
    followed by the text of the VISA error;
  \<^item> \<open>ValueError msg\<close>: line 475, and what \<^verbatim>\<open>time.sleep\<close> raises on a
    negative argument.

  \<open>KeyError\<close>, \<open>AttributeError\<close>, \<open>TypeError\<close> and \<open>ZeroDivisionError\<close> are
  what Python raises for a missing key or attribute, for arithmetic on a value that is no
  number and for a division by zero; \<open>OtherException\<close> is any other exception of the
  driver or the instrument.
\<close>

datatype exn =
    VisaIOError string
  | OtherException string
  | DeviceNotConnected
  | NoSmuObject
  | RepeatedFailure string
  | ValueError string
  | KeyError string
  | AttributeError string
  | TypeError
  | ZeroDivisionError

subsection \<open>Strings\<close>

text \<open>\<^verbatim>\<open>s.startswith(p)\<close>\<close>

definition startswith :: "string \<Rightarrow> string \<Rightarrow> bool" where
  "startswith s p = (take (length p) s = p)"

text \<open>\<^verbatim>\<open>sub in s\<close> for strings: \<open>sub\<close> starts at some position of \<open>s\<close>.\<close>

fun py_in :: "string \<Rightarrow> string \<Rightarrow> bool" where
  "py_in sub [] = (sub = [])"
| "py_in sub (c # cs) = (startswith (c # cs) sub \<or> py_in sub cs)"

subsection \<open>\<^verbatim>\<open>_get_smus\<close> (lines 28 to 47)\<close>

text \<open>
  What reading \<^verbatim>\<open>keithley.connected\<close> does: the attribute is missing
  (\<^verbatim>\<open>hasattr\<close> is false), reading it raises something other than AttributeError
  (which \<^verbatim>\<open>hasattr\<close> lets through), or it has a truth value.
\<close>

datatype attr_lookup = NoAttr | AttrRaises exn | AttrValue bool

text \<open>
  The keithley object as the functions of main.py see it: the \<^verbatim>\<open>connected\<close>
  attribute, what \<^verbatim>\<open>dir(keithley)\<close> returns (an exception or the attribute names),
  and whether it has a \<^verbatim>\<open>reset\<close> method.
\<close>

record keithley =
  connected_attr :: attr_lookup
  dir_result :: "exn + string list"
  has_reset :: bool

definition default_smu_list :: "string list" where
  "default_smu_list = [''smu1'', ''smu2'']"

text \<open>The try block, lines 30 to 40.\<close>

definition read_smu_list :: "keithley \<Rightarrow> string list" where
  "read_smu_list k =
     (case connected_attr k of
        AttrRaises e \<Rightarrow> default_smu_list
      | AttrValue False \<Rightarrow> default_smu_list
      | _ \<Rightarrow>
          (case dir_result k of
             Inl e \<Rightarrow> default_smu_list
           | Inr names \<Rightarrow> filter (\<lambda>attr_name. startswith attr_name ''smu'') names))"

text \<open>The loop of lines 44 and 45.\<close>

function fill_placeholders :: "string list \<Rightarrow> string list" where
  "fill_placeholders smu_list =
     (if length smu_list < 2 then fill_placeholders (smu_list @ [''--'']) else smu_list)"
  by pat_completeness auto
termination
  by (relation "measure (\<lambda>smu_list. 2 - length smu_list)") auto

declare fill_placeholders.simps [simp del]

definition get_smus :: "keithley \<Rightarrow> string list" where
  "get_smus k = fill_placeholders (read_smu_list k)"

subsection \<open>\<^verbatim>\<open>KeithleyGuiApp._string_to_vd\<close> (lines 467 to 475)\<close>

text \<open>A drain voltage is a number or the word \<^verbatim>\<open>"trailing"\<close>.\<close>

datatype vd = VdFloat real | VdTrailing

text \<open>
  \<open>float_py\<close> is Python's built-in \<^verbatim>\<open>float\<close> on strings: \<open>None\<close> where it
  raises ValueError. It is a parameter: the function does not depend on which strings
  parse.
\<close>

definition string_to_vd :: "(string \<Rightarrow> real option) \<Rightarrow> string \<Rightarrow> exn + vd" where
  "string_to_vd float_py string =
     (case float_py string of
        Some x \<Rightarrow> Inr (VdFloat x)
      | None \<Rightarrow>
          if py_in ''trailing'' string then Inr VdTrailing
          else Inl (ValueError ''Invalid drain voltage.''))"

subsection \<open>\<^verbatim>\<open>SweepSettingsWidget\<close>: the selector slots (lines 153 to 169)\<close>

text \<open>
  The widget holds the SMU list, the integration time, the settling time, the sweep type
  and the two selectors. A selector (a \<^verbatim>\<open>QComboBox\<close> over \<open>smu_list\<close>) is its
  current index.
\<close>

record sweep_settings =
  smu_list :: "string list"
  t_int :: real
  t_settling :: real
  sweep_type :: int
  smu_gate :: int
  smu_drain :: int

text \<open>
  \<^verbatim>\<open>QComboBox.currentText()\<close>: the item at the current index, the empty string when
  there is none.
\<close>

definition currentText :: "string list \<Rightarrow> int \<Rightarrow> string" where
  "currentText items i = (if 0 \<le> i \<and> i < int (length items) then items ! nat i else [])"

text \<open>
  \<^verbatim>\<open>QComboBox.setCurrentIndex(i)\<close> selects the item at index \<open>i\<close>, or no item
  (index -1) when there is none at \<open>i\<close>. It does nothing when this is the current
  index; otherwise it stores the index and emits \<^verbatim>\<open>currentIndexChanged\<close> with it,
  which runs the connected slot (lines 121 and 122) before it returns. A change made by
  the user goes the same way. The slots call \<^verbatim>\<open>setCurrentIndex\<close> of the other
  selector, so the four functions are mutually recursive.
\<close>

definition valid_index :: "string list \<Rightarrow> int \<Rightarrow> int" where
  "valid_index items i = (if 0 \<le> i \<and> i < int (length items) then i else -1)"

text \<open>
  The number of selectors that are not on a target: \<open>g\<close> for the gate, \<open>d\<close> for the
  drain.
\<close>

definition off_target :: "sweep_settings \<Rightarrow> int \<Rightarrow> int \<Rightarrow> nat" where
  "off_target s g d = (if smu_gate s = g then 0 else 1) + (if smu_drain s = d then 0 else 1)"

function on_smu_gate_changed :: "sweep_settings \<Rightarrow> int \<Rightarrow> sweep_settings"
  and smu_drain_setCurrentIndex :: "sweep_settings \<Rightarrow> int \<Rightarrow> sweep_settings"
  and on_smu_drain_changed :: "sweep_settings \<Rightarrow> int \<Rightarrow> sweep_settings"
  and smu_gate_setCurrentIndex :: "sweep_settings \<Rightarrow> int \<Rightarrow> sweep_settings"
where
  "on_smu_gate_changed s int_smu =
     (if int_smu = 0 \<and> length (smu_list s) < 3 then smu_drain_setCurrentIndex s 1
      else if int_smu = 1 \<and> length (smu_list s) < 3 then smu_drain_setCurrentIndex s 0
      else s)"
| "smu_drain_setCurrentIndex s i =
     (let j = valid_index (smu_list s) i
      in if smu_drain s = j then s else on_smu_drain_changed (s\<lparr>smu_drain := j\<rparr>) j)"
| "on_smu_drain_changed s int_smu =
     (if int_smu = 0 \<and> length (smu_list s) < 3 then smu_gate_setCurrentIndex s 1
      else if int_smu = 1 \<and> length (smu_list s) < 3 then smu_gate_setCurrentIndex s 0
      else s)"
| "smu_gate_setCurrentIndex s i =
     (let j = valid_index (smu_list s) i
      in if smu_gate s = j then s else on_smu_gate_changed (s\<lparr>smu_gate := j\<rparr>) j)"
  by pat_completeness auto

text \<open>
  The cascade ends. A slot called with 0 or 1 aims at this index for its own selector
  and at the other index for the other one. Each \<^verbatim>\<open>setCurrentIndex\<close> that goes on
  has just put one selector on its target, a slot is one step above the call it makes,
  and a slot called with any other index calls nothing.
\<close>

termination
  by (relation "measure (\<lambda>c. case c of
       Inl (Inl (s, a)) \<Rightarrow> (if a = 0 \<or> a = 1 then 2 * off_target s a (1 - a) + 3 else 0)
     | Inl (Inr (s, i)) \<Rightarrow>
         (let j = valid_index (smu_list s) i
          in if j = 0 \<or> j = 1 then 2 * off_target s (1 - j) j + 2 else 1)
     | Inr (Inl (s, a)) \<Rightarrow> (if a = 0 \<or> a = 1 then 2 * off_target s (1 - a) a + 3 else 0)
     | Inr (Inr (s, i)) \<Rightarrow>
         (let j = valid_index (smu_list s) i
          in if j = 0 \<or> j = 1 then 2 * off_target s j (1 - j) + 2 else 1))")
     (auto simp: off_target_def valid_index_def Let_def split: if_splits)

declare on_smu_gate_changed.simps [simp del] smu_drain_setCurrentIndex.simps [simp del]
  on_smu_drain_changed.simps [simp del] smu_gate_setCurrentIndex.simps [simp del]

text \<open>
  \<^verbatim>\<open>QComboBox.findText(text)\<close>: the index of the first item with this text, -1 when
  there is none.
\<close>

fun findText :: "string list \<Rightarrow> string \<Rightarrow> int" where
  "findText [] text = -1"
| "findText (item # items) text =
     (if item = text then 0
      else (let i = findText items text in if i < 0 then -1 else i + 1))"

text \<open>
  \<^verbatim>\<open>QComboBox.setCurrentText(text)\<close> on a selector that cannot be edited selects the
  item with this text when there is one and changes nothing otherwise.
\<close>

definition setCurrentText :: "string list \<Rightarrow> int \<Rightarrow> string \<Rightarrow> int" where
  "setCurrentText items current_index text =
     (let i = findText items text in if 0 \<le> i then i else current_index)"

text \<open>
  Lines 144 and 145 of \<^verbatim>\<open>load_defaults\<close>, with the two texts that the configuration
  holds for the gate and the drain. The constructor calls \<^verbatim>\<open>load_defaults\<close> at line
  119 and connects the two slots after it, at lines 121 and 122: here the change of a
  selector runs no slot.
\<close>

definition load_defaults_smus :: "sweep_settings \<Rightarrow> string \<Rightarrow> string \<Rightarrow> sweep_settings" where
  "load_defaults_smus s conf_gate conf_drain =
     s\<lparr>smu_gate := setCurrentText (smu_list s) (smu_gate s) conf_gate,
       smu_drain := setCurrentText (smu_list s) (smu_drain s) conf_drain\<rparr>"

subsection \<open>\<^verbatim>\<open>KeithleyGuiApp.on_sweep_clicked\<close> (lines 553 to 626)\<close>

text \<open>The values of the \<^verbatim>\<open>params\<close> dictionary; an SMU object is its attribute name.\<close>

datatype pval =
    PStr string
  | PNum real
  | PList "vd list"
  | PSmu string
  | PBool bool

type_synonym params = "string \<rightharpoonup> pval"

text \<open>
  What the slot reads: the busy flag of the driver, the widgets, and the instrument.
  \<open>apply_smu_settings\<close> is the exception that writing the SMU settings raises, if any;
  \<open>keithley_getattr name\<close> is the exception that \<^verbatim>\<open>getattr(self.keithley, name)\<close>
  raises, if any; \<open>linefreq\<close> is the line frequency that the instrument reports, or
  the exception that reading it raises.
\<close>

record sweep_gui =
  busy :: bool
  apply_smu_settings :: "exn option"
  tabWidgetSweeps :: int
  vg_start :: real
  vg_stop :: real
  vg_step :: real
  vd_list :: "vd list"
  vd_start :: real
  vd_stop :: real
  vd_step :: real
  vg_list :: "vd list"
  v_start :: real
  v_stop :: real
  v_step :: real
  smu_sweep :: string
  general_sweep_settings :: sweep_settings
  keithley_getattr :: "string \<Rightarrow> exn option"
  linefreq :: "exn + real"

datatype dialog = KeithleyBusy | ParameterError

text \<open>
  How the slot ends: with a dialog, by returning silently, by creating and starting the
  \<^verbatim>\<open>MeasureThread\<close> with its \<open>params\<close>, or with an exception that leaves the slot.
\<close>

datatype sweep_click = ShowsDialog dialog | ReturnsSilently | StartsThread params | Propagates exn

text \<open>Lines 565 to 596: the settings of the selected tab; \<open>None\<close> is the bare return.\<close>

definition tab_params :: "sweep_gui \<Rightarrow> exn + params option" where
  "tab_params g =
     (if tabWidgetSweeps g = 0 then
        Inr (Some [''sweep_type'' \<mapsto> PStr ''transfer'', ''VgStart'' \<mapsto> PNum (vg_start g),
                   ''VgStop'' \<mapsto> PNum (vg_stop g), ''VgStep'' \<mapsto> PNum (vg_step g),
                   ''VdList'' \<mapsto> PList (vd_list g)])
      else if tabWidgetSweeps g = 1 then
        Inr (Some [''sweep_type'' \<mapsto> PStr ''output'', ''VdStart'' \<mapsto> PNum (vd_start g),
                   ''VdStop'' \<mapsto> PNum (vd_stop g), ''VdStep'' \<mapsto> PNum (vd_step g),
                   ''VgList'' \<mapsto> PList (vg_list g)])
      else if tabWidgetSweeps g = 2 then
        (case keithley_getattr g (smu_sweep g) of
           Some e \<Rightarrow> Inl e
         | None \<Rightarrow>
             Inr (Some [''sweep_type'' \<mapsto> PStr ''iv'', ''VStart'' \<mapsto> PNum (v_start g),
                        ''VStop'' \<mapsto> PNum (v_stop g), ''VStep'' \<mapsto> PNum (v_step g),
                        ''smu_sweep'' \<mapsto> PSmu (smu_sweep g)]))
      else Inr None)"

text \<open>Lines 598 to 605: the general settings are added to the dictionary.\<close>

definition general_params :: "sweep_gui \<Rightarrow> params \<Rightarrow> exn + params" where
  "general_params g params =
     (let w = general_sweep_settings g;
          smu_gate_name = currentText (smu_list w) (smu_gate w);
          smu_drain_name = currentText (smu_list w) (smu_drain w)
      in case keithley_getattr g smu_gate_name of
           Some e \<Rightarrow> Inl e
         | None \<Rightarrow>
            (case keithley_getattr g smu_drain_name of
               Some e \<Rightarrow> Inl e
             | None \<Rightarrow>
                 Inr (params(''tInt'' \<mapsto> PNum (t_int w), ''delay'' \<mapsto> PNum (t_settling w),
                        ''smu_gate'' \<mapsto> PSmu smu_gate_name,
                        ''smu_drain'' \<mapsto> PSmu smu_drain_name,
                        ''pulsed'' \<mapsto> PBool (sweep_type w \<noteq> 0)))))"

text \<open>
  Lines 607 to 617. The two bounds are quotients of Python floats, which are doubles:
  \<open>fdiv c x\<close> is the double that \<^verbatim>\<open>c / x\<close> evaluates to for the float literal
  \<open>c\<close> and a divisor \<open>x\<close> other than 0, that is the quotient of the double of the
  literal by \<open>x\<close>, rounded to a double. It is a parameter: the slot compares with the
  quotients and does not depend on how they are rounded. The comparison of two doubles
  is the comparison of the numbers they stand for. The chained comparison divides by
  \<open>freq\<close> first, which raises ZeroDivisionError for 0.
\<close>

definition t_int_valid :: "(real \<Rightarrow> real \<Rightarrow> real) \<Rightarrow> real \<Rightarrow> real \<Rightarrow> bool" where
  "t_int_valid fdiv freq tInt \<longleftrightarrow> fdiv 0.001 freq < tInt \<and> tInt < fdiv 25.0 freq"

definition on_sweep_clicked :: "(real \<Rightarrow> real \<Rightarrow> real) \<Rightarrow> sweep_gui \<Rightarrow> sweep_click" where
  "on_sweep_clicked fdiv g =
     (if busy g then ShowsDialog KeithleyBusy
      else case apply_smu_settings g of
        Some e \<Rightarrow> Propagates e
      | None \<Rightarrow>
         (case tab_params g of
            Inl e \<Rightarrow> Propagates e
          | Inr None \<Rightarrow> ReturnsSilently
          | Inr (Some params0) \<Rightarrow>
             (case general_params g params0 of
                Inl e \<Rightarrow> Propagates e
              | Inr params \<Rightarrow>
                 (case linefreq g of
                    Inl e \<Rightarrow> Propagates e
                  | Inr freq \<Rightarrow>
                      if freq = 0 then Propagates ZeroDivisionError
                      else if \<not> t_int_valid fdiv freq (t_int (general_sweep_settings g))
                        then ShowsDialog ParameterError
                      else StartsThread params))))"

text \<open>
  The validation is reached when the driver is not busy, the SMU settings are written, a
  sweep tab is selected, the SMU attributes of the selectors exist and the line frequency
  is read.
\<close>

definition reaches_validation :: "sweep_gui \<Rightarrow> real \<Rightarrow> bool" where
  "reaches_validation g freq \<longleftrightarrow>
     \<not> busy g \<and> apply_smu_settings g = None
     \<and> (tabWidgetSweeps g = 0 \<or> tabWidgetSweeps g = 1
          \<or> tabWidgetSweeps g = 2 \<and> keithley_getattr g (smu_sweep g) = None)
     \<and> keithley_getattr g (currentText (smu_list (general_sweep_settings g))
          (smu_gate (general_sweep_settings g))) = None
     \<and> keithley_getattr g (currentText (smu_list (general_sweep_settings g))
          (smu_drain (general_sweep_settings g))) = None
     \<and> linefreq g = Inr freq"

subsection \<open>\<^verbatim>\<open>MeasureThread.run\<close> (lines 1028 to 1097)\<close>

text \<open>
  What the thread calls outside main.py: the three measurement methods of the driver,
  \<^verbatim>\<open>numpy.arange\<close>, the constructor of the result table, the beeper and the reset.
  Each returns or raises. \<open>'t\<close> is the type of result tables.
\<close>

record 't driver =
  transfer_measurement :: "pval list \<Rightarrow> exn + 't"
  output_measurement :: "pval list \<Rightarrow> exn + 't"
  voltage_sweep_single_smu :: "pval \<Rightarrow> real list \<Rightarrow> pval \<Rightarrow> pval \<Rightarrow> pval
    \<Rightarrow> exn + (real list \<times> real list)"
  np_arange :: "real \<Rightarrow> real \<Rightarrow> real \<Rightarrow> exn + real list"
  FETResultTable :: "real list \<Rightarrow> real list \<Rightarrow> params \<Rightarrow> exn + 't"
  beep :: "exn option"
  reset :: "exn option"

text \<open>The three signals of the thread.\<close>

datatype 't measure_signal = Started_sig | Finished_sig "'t option" | Error_sig exn

text \<open>Sequencing of statements that may raise.\<close>

definition and_then :: "exn + 'a \<Rightarrow> ('a \<Rightarrow> exn + 'b) \<Rightarrow> exn + 'b" where
  "and_then r f = (case r of Inl e \<Rightarrow> Inl e | Inr x \<Rightarrow> f x)"

text \<open>\<^verbatim>\<open>self.params[key]\<close>\<close>

definition param :: "params \<Rightarrow> string \<Rightarrow> exn + pval" where
  "param ps key = (case ps key of None \<Rightarrow> Inl (KeyError key) | Some v \<Rightarrow> Inr v)"

text \<open>The arguments of a call are looked up from left to right.\<close>

fun param_list :: "params \<Rightarrow> string list \<Rightarrow> exn + pval list" where
  "param_list ps [] = Inr []"
| "param_list ps (key # keys) =
     and_then (param ps key) (\<lambda>v. and_then (param_list ps keys) (\<lambda>vs. Inr (v # vs)))"

text \<open>
  The number that arithmetic takes a value of the dictionary for: floats and booleans
  (\<^verbatim>\<open>True\<close> is 1) are numbers, with anything else the operation raises TypeError.
\<close>

fun to_num :: "pval \<Rightarrow> exn + real" where
  "to_num (PNum x) = Inr x"
| "to_num (PBool b) = Inr (if b then 1 else 0)"
| "to_num v = Inl TypeError"

text \<open>
  Lines 1061 to 1090, the IV sweep. Both operands of the subtraction are looked up
  before it is computed; \<^verbatim>\<open>np.flip\<close> and \<^verbatim>\<open>np.append\<close> are \<open>rev\<close> and
  \<open>@\<close>; the transposed array of \<open>v\<close> and \<open>i\<close> is built inside \<open>FETResultTable\<close>.
\<close>

definition iv_sweep :: "'t driver \<Rightarrow> params \<Rightarrow> exn + 't" where
  "iv_sweep d ps =
     and_then (param ps ''VStop'') (\<lambda>vstop0.
     and_then (param ps ''VStart'') (\<lambda>vstart0.
     and_then (to_num vstop0) (\<lambda>stop0.
     and_then (to_num vstart0) (\<lambda>start0.
       let direction = sgn (stop0 - start0) in
     and_then (param ps ''VStep'') (\<lambda>vstep.
     and_then (to_num vstep) (\<lambda>step.
       let stp = direction * \<bar>step\<bar> in
     and_then (param ps ''VStart'') (\<lambda>vstart.
     and_then (param ps ''VStop'') (\<lambda>vstop.
     and_then (to_num vstop) (\<lambda>stop.
     and_then (to_num vstart) (\<lambda>start.
     and_then (np_arange d start (stop + stp) stp) (\<lambda>sweeplist0.
       let sweeplist = sweeplist0 @ rev sweeplist0 in
     and_then (param ps ''smu_sweep'') (\<lambda>smu.
     and_then (param ps ''tInt'') (\<lambda>tInt.
     and_then (param ps ''delay'') (\<lambda>delay.
     and_then (param ps ''pulsed'') (\<lambda>pulsed.
     and_then (voltage_sweep_single_smu d smu sweeplist tInt delay pulsed) (\<lambda>(v, i).
     and_then (param ps ''tInt'') (\<lambda>tInt'.
     and_then (param ps ''delay'') (\<lambda>delay'.
     and_then (param ps ''pulsed'') (\<lambda>pulsed'.
       FETResultTable d v i
         [''sweep_type'' \<mapsto> PStr ''iv'', ''t_int'' \<mapsto> tInt', ''delay'' \<mapsto> delay',
          ''pulsed'' \<mapsto> pulsed'])))))))))))))))))))"

text \<open>Lines 1033 to 1090: the measurement of the selected sweep shape.\<close>

definition run_measurement :: "'t driver \<Rightarrow> params \<Rightarrow> exn + 't option" where
  "run_measurement d ps =
     and_then (param ps ''sweep_type'') (\<lambda>sweep_type.
       if sweep_type = PStr ''transfer'' then
         and_then (param_list ps [''smu_gate'', ''smu_drain'', ''VgStart'', ''VgStop'',
                     ''VgStep'', ''VdList'', ''tInt'', ''delay'', ''pulsed''])
           (\<lambda>args. and_then (transfer_measurement d args) (\<lambda>t. Inr (Some t)))
       else if sweep_type = PStr ''output'' then
         and_then (param_list ps [''smu_gate'', ''smu_drain'', ''VdStart'', ''VdStop'',
                     ''VdStep'', ''VgList'', ''tInt'', ''delay'', ''pulsed''])
           (\<lambda>args. and_then (output_measurement d args) (\<lambda>t. Inr (Some t)))
       else if sweep_type = PStr ''iv'' then
         and_then (iv_sweep d ps) (\<lambda>t. Inr (Some t))
       else Inr None)"

text \<open>Lines 1032 to 1095, the try block up to the emission of \<^verbatim>\<open>finished_sig\<close>.\<close>

definition measure_and_reset :: "'t driver \<Rightarrow> params \<Rightarrow> exn + 't option" where
  "measure_and_reset d ps =
     and_then (run_measurement d ps) (\<lambda>sweep_data.
       case beep d of
         Some e \<Rightarrow> Inl e
       | None \<Rightarrow> (case reset d of Some e \<Rightarrow> Inl e | None \<Rightarrow> Inr sweep_data))"

text \<open>The signals that \<^verbatim>\<open>run\<close> emits, in order.\<close>

definition MeasureThread_run :: "'t driver \<Rightarrow> params \<Rightarrow> 't measure_signal list" where
  "MeasureThread_run d ps =
     Started_sig #
       (case measure_and_reset d ps of
          Inr sweep_data \<Rightarrow> [Finished_sig sweep_data]
        | Inl exc \<Rightarrow> [Error_sig exc])"

fun is_result_sig :: "'t measure_signal \<Rightarrow> bool" where
  "is_result_sig Started_sig = False"
| "is_result_sig (Finished_sig t) = True"
| "is_result_sig (Error_sig e) = True"

subsection \<open>\<^verbatim>\<open>RealtimeMeasureThread\<close> (lines 1101 to 1298)\<close>

text \<open>
  The payload of \<^verbatim>\<open>data_sig\<close>. The dictionary of the source holds the tuple
  \<^verbatim>\<open>last_value\<close> and, under "time", "voltage" and "current", the three list objects
  of the thread themselves, not copies. A \<open>payload\<close> is the tuple together with what
  the three lists contain at one moment: in a \<open>DataSig\<close> action, at the emission. The
  lists go on growing, so a receiver that reads the dictionary later finds more in them;
  see \<open>read_after\<close> below.
\<close>

record payload =
  time :: "real list"
  voltage :: "real list"
  current :: "real list"
  last_value :: "real \<times> real \<times> real"

text \<open>
  The attributes of the thread object. \<open>smu\<close> is \<open>None\<close> when
  \<^verbatim>\<open>getattr(self.keithley, smu_name)\<close> raised in the constructor (line 1114).
\<close>

record rt_thread =
  smu :: "string option"
  interval :: real
  running :: bool
  time_data :: "real list"
  voltage_data :: "real list"
  current_data :: "real list"
  start_time :: real
  simulation_mode :: bool
  current_voltage :: real

text \<open>
  \<^verbatim>\<open>run\<close> executes in the worker thread, \<^verbatim>\<open>stop\<close> and
  \<^verbatim>\<open>update_simulation_voltage\<close> are called from slots of the UI thread (lines 932 and
  917).
\<close>

datatype thread = UiThread | WorkerThread

text \<open>
  What a run does, in order: the test of \<^verbatim>\<open>self.running\<close> at the loop head with the
  value read, the mutex, the read and the write of \<^verbatim>\<open>current_voltage\<close>, the write of
  \<^verbatim>\<open>running\<close> by \<^verbatim>\<open>stop\<close>, the calls of the instrument, the sleeps, and
  the three signals.
\<close>

datatype action =
    Poll bool
  | Lock thread
  | Unlock thread
  | ReadVoltage real
  | WriteVoltage real
  | WriteRunning
  | MeasureV
  | MeasureI
  | Reset
  | Sleep real
  | DataSig payload
  | ErrorSig exn
  | FinishedSig

text \<open>The methods that the UI thread calls, lines 1132 to 1139.\<close>

definition stop :: "rt_thread \<Rightarrow> action list \<times> rt_thread" where
  "stop s = ([WriteRunning], s\<lparr>running := False\<rparr>)"

definition update_simulation_voltage :: "rt_thread \<Rightarrow> real \<Rightarrow> action list \<times> rt_thread" where
  "update_simulation_voltage s new_voltage =
     ([Lock UiThread, WriteVoltage new_voltage, Unlock UiThread],
      s\<lparr>current_voltage := new_voltage\<rparr>)"

datatype ui_call = Stop | UpdateSimulationVoltage real

fun call_from_ui :: "ui_call \<Rightarrow> rt_thread \<Rightarrow> action list \<times> rt_thread" where
  "call_from_ui Stop s = stop s"
| "call_from_ui (UpdateSimulationVoltage v) s = update_simulation_voltage s v"

text \<open>A sequence of calls from the UI thread: what they do and the state they leave.\<close>

fun ui_calls :: "ui_call list \<Rightarrow> rt_thread \<Rightarrow> action list \<times> rt_thread" where
  "ui_calls [] s = ([], s)"
| "ui_calls (c # cs) s =
     (let (a, s') = call_from_ui c s; (b, s'') = ui_calls cs s' in (a @ b, s''))"

text \<open>
  What happens around one iteration of a sampling loop. The two threads interleave: the
  calls in \<open>pre_calls\<close> are made by the UI thread after the loop head and before the
  iteration reads the setpoint or the instrument, those in \<open>post_calls\<close> after that and
  before the next loop head. \<open>uniform\<close> is what \<^verbatim>\<open>random.uniform\<close> returns,
  \<open>v_result\<close> and \<open>i_result\<close> what the two reads of the instrument return or raise,
  \<open>clock\<close> what \<^verbatim>\<open>time.time()\<close> returns, \<open>reset_result\<close> what
  \<^verbatim>\<open>keithley.reset()\<close> raises in the recovery, if anything.
\<close>

record iter_env =
  pre_calls :: "ui_call list"
  post_calls :: "ui_call list"
  uniform :: real
  v_result :: "exn + real"
  i_result :: "exn + real"
  clock :: real
  reset_result :: "exn option"

text \<open>
  An iteration ends at the end of the loop body or with \<^verbatim>\<open>continue\<close>
  (\<open>Continue\<close>, with the state for the next loop head), with \<^verbatim>\<open>break\<close>, or with an
  exception that leaves the loop.
\<close>

datatype 's step = Continue "action list" 's | Break "action list" | Raise "action list" exn

text \<open>
  How a loop ends: it is left normally, an exception leaves it, or the iterations that
  the script describes are used up and \<^verbatim>\<open>self.running\<close> is still true.
\<close>

datatype outcome = Exited | Raised exn | StillRunning

text \<open>\<^verbatim>\<open>time.sleep(secs)\<close> raises ValueError for a negative argument.\<close>

definition sleep :: "real \<Rightarrow> exn + action list" where
  "sleep secs = (if secs < 0 then Inl (ValueError ''sleep length must be non-negative'')
                 else Inr [Sleep secs])"

definition frequency :: real where "frequency = 0.2"
definition noise_level :: real where "noise_level = 0.1"
definition baseline :: real where "baseline = 0.000001"
definition amplitude :: real where "amplitude = 0.000001"

text \<open>Lines 1164 to 1171: the synthetic current at time \<open>t\<close>.\<close>

definition simulated_current :: "real \<Rightarrow> real \<Rightarrow> real \<Rightarrow> real" where
  "simulated_current simulated_voltage t u =
     (let current_scale = \<bar>simulated_voltage\<bar> * 0.000002;
          sine_component = amplitude * sin (2 * pi * frequency * t);
          noise = u * amplitude
      in baseline + current_scale + sine_component + noise)"

text \<open>
  Lines 1173 to 1183: the three appends, and the dictionary with the lists as they are
  when it is emitted.
\<close>

definition append_sample :: "rt_thread \<Rightarrow> real \<Rightarrow> real \<Rightarrow> real \<Rightarrow> rt_thread" where
  "append_sample s t v i =
     s\<lparr>time_data := time_data s @ [t], voltage_data := voltage_data s @ [v],
       current_data := current_data s @ [i]\<rparr>"

definition data_of :: "rt_thread \<Rightarrow> real \<Rightarrow> real \<Rightarrow> real \<Rightarrow> payload" where
  "data_of s t v i =
     \<lparr>time = time_data s, voltage = voltage_data s, current = current_data s,
      last_value = (t, v, i)\<rparr>"

text \<open>Lines 1159 to 1188: the body of the loop of \<^verbatim>\<open>_run_simulation\<close>.\<close>

definition sim_iteration :: "rt_thread \<Rightarrow> real \<Rightarrow> iter_env \<Rightarrow> (rt_thread \<times> real) step" where
  "sim_iteration s t x =
     (let (ui1, s1) = ui_calls (pre_calls x) s;
          simulated_voltage = current_voltage s1;
          i = simulated_current simulated_voltage t (uniform x);
          s2 = append_sample s1 t simulated_voltage i;
          acts = ui1 @ [Lock WorkerThread, ReadVoltage simulated_voltage, Unlock WorkerThread,
                        DataSig (data_of s2 t simulated_voltage i)]
      in case sleep (interval s2) of
           Inl e \<Rightarrow> Raise acts e
         | Inr sl \<Rightarrow>
             (let (ui2, s3) = ui_calls (post_calls x) s2
              in Continue (acts @ sl @ ui2) (s3, t + interval s3)))"

text \<open>
  Line 1158: the loop. The script has one entry for each iteration; when it is used up
  and the flag is still set the loop has not ended.
\<close>

fun sim_loop :: "rt_thread \<Rightarrow> real \<Rightarrow> iter_env list \<Rightarrow> action list \<times> outcome" where
  "sim_loop s t [] = (if running s then ([], StillRunning) else ([Poll False], Exited))"
| "sim_loop s t (x # xs) =
     (if \<not> running s then ([Poll False], Exited)
      else case sim_iteration s t x of
             Continue acts (s', t') \<Rightarrow>
               (let (tr, out) = sim_loop s' t' xs in (Poll True # acts @ tr, out))
           | Break acts \<Rightarrow> (Poll True # acts, Exited)
           | Raise acts e \<Rightarrow> (Poll True # acts, Raised e))"

text \<open>Lines 1146 to 1157; \<open>now\<close> is what \<^verbatim>\<open>time.time()\<close> returns.\<close>

definition run_simulation :: "rt_thread \<Rightarrow> real \<Rightarrow> iter_env list \<Rightarrow> action list \<times> outcome" where
  "run_simulation s now xs =
     sim_loop (s\<lparr>time_data := [], voltage_data := [], current_data := [], start_time := now\<rparr>)
       0 xs"

text \<open>
  Lines 1251 to 1263: the recovery after a timeout. Whatever it raises is caught and
  printed; a failing reset skips the second sleep.
\<close>

definition recovery :: "keithley \<Rightarrow> iter_env \<Rightarrow> string \<Rightarrow> action list" where
  "recovery k x msg =
     (if py_in ''VI_ERROR_TMO'' msg then
        Sleep 0.5 #
          (if has_reset k then
             (case reset_result x of Some e \<Rightarrow> [Reset] | None \<Rightarrow> [Reset, Sleep 1])
           else [])
      else [])"

definition max_consecutive_errors :: nat where
  "max_consecutive_errors = 3"

text \<open>
  Lines 1247 to 1283: the two handlers. \<open>acts\<close> is what the iteration did before the
  exception, \<open>consecutive_errors\<close> the counter before it.
\<close>

definition handle_error ::
  "keithley \<Rightarrow> iter_env \<Rightarrow> rt_thread \<Rightarrow> nat \<Rightarrow> action list \<Rightarrow> exn \<Rightarrow> (rt_thread \<times> nat) step" where
  "handle_error k x s consecutive_errors acts e =
     (let consecutive_errors = consecutive_errors + 1 in
      case e of
        VisaIOError msg \<Rightarrow>
          (let acts = acts @ recovery k x msg in
           if consecutive_errors \<ge> max_consecutive_errors
           then Break (acts @ [ErrorSig (RepeatedFailure msg)])
           else (let (ui2, s') = ui_calls (post_calls x) s
                 in Continue (acts @ ui2) (s', consecutive_errors)))
      | _ \<Rightarrow>
          if consecutive_errors \<ge> max_consecutive_errors
          then Break (acts @ [ErrorSig e])
          else (let (ui2, s') = ui_calls (post_calls x) s
                in Continue (acts @ ui2) (s', consecutive_errors)))"

text \<open>Lines 1225 to 1286: the body of the loop of the real-device mode.\<close>

definition real_iteration ::
  "keithley \<Rightarrow> rt_thread \<Rightarrow> nat \<Rightarrow> iter_env \<Rightarrow> (rt_thread \<times> nat) step" where
  "real_iteration k s consecutive_errors x =
     (let (ui1, s1) = ui_calls (pre_calls x) s in
      case v_result x of
        Inl e \<Rightarrow> handle_error k x s1 consecutive_errors (ui1 @ [MeasureV]) e
      | Inr v \<Rightarrow>
         (case i_result x of
            Inl e \<Rightarrow> handle_error k x s1 consecutive_errors (ui1 @ [MeasureV, MeasureI]) e
          | Inr i \<Rightarrow>
             (let t = clock x - start_time s1;
                  s2 = append_sample s1 t v i;
                  acts = ui1 @ [MeasureV, MeasureI, DataSig (data_of s2 t v i)]
              in case sleep (interval s2) of
                   Inl e \<Rightarrow> Raise acts e
                 | Inr sl \<Rightarrow>
                     (let (ui2, s3) = ui_calls (post_calls x) s2
                      in Continue (acts @ sl @ ui2) (s3, 0)))))"

text \<open>Line 1224: the loop.\<close>

fun real_loop :: "keithley \<Rightarrow> rt_thread \<Rightarrow> nat \<Rightarrow> iter_env list \<Rightarrow> action list \<times> outcome" where
  "real_loop k s c [] = (if running s then ([], StillRunning) else ([Poll False], Exited))"
| "real_loop k s c (x # xs) =
     (if \<not> running s then ([Poll False], Exited)
      else case real_iteration k s c x of
             Continue acts (s', c') \<Rightarrow>
               (let (tr, out) = real_loop k s' c' xs in (Poll True # acts @ tr, out))
           | Break acts \<Rightarrow> (Poll True # acts, Exited)
           | Raise acts e \<Rightarrow> (Poll True # acts, Raised e))"

text \<open>
  Lines 1191 to 1286: the try block of \<^verbatim>\<open>run\<close>. Storing and restoring the VISA
  timeout (lines 1209 to 1215 and 1292 to 1296) is left out: both are wrapped in handlers
  that catch everything, and they neither emit a signal nor touch the thread object.
\<close>

definition run_body ::
  "keithley \<Rightarrow> rt_thread \<Rightarrow> real \<Rightarrow> iter_env list \<Rightarrow> action list \<times> outcome" where
  "run_body k s now xs =
     (if simulation_mode s then run_simulation s now xs
      else case connected_attr k of
        NoAttr \<Rightarrow> ([ErrorSig DeviceNotConnected], Exited)
      | AttrRaises e \<Rightarrow> ([], Raised e)
      | AttrValue False \<Rightarrow> ([ErrorSig DeviceNotConnected], Exited)
      | AttrValue True \<Rightarrow>
          (case smu s of
             None \<Rightarrow> ([ErrorSig NoSmuObject], Exited)
           | Some name \<Rightarrow>
               real_loop k
                 (s\<lparr>time_data := [], voltage_data := [], current_data := [], start_time := now\<rparr>)
                 0 xs))"

text \<open>
  Lines 1190 to 1298: \<^verbatim>\<open>run\<close> with its handler and its \<^verbatim>\<open>finally\<close>. The result
  is what the thread did and whether \<^verbatim>\<open>run\<close> has returned.
\<close>

definition run :: "keithley \<Rightarrow> rt_thread \<Rightarrow> real \<Rightarrow> iter_env list \<Rightarrow> action list \<times> bool" where
  "run k s now xs =
     (case run_body k s now xs of
        (tr, Exited) \<Rightarrow> (tr @ [FinishedSig], True)
      | (tr, Raised exc) \<Rightarrow> (tr @ [ErrorSig exc, FinishedSig], True)
      | (tr, StillRunning) \<Rightarrow> (tr, False))"

subsection \<open>\<^verbatim>\<open>KeithleyGuiApp.on_start_realtime_clicked\<close> (lines 825 to 891)\<close>

text \<open>Lines 1106 to 1126; \<open>getattr_smu\<close> is what the lookup of the SMU raises, if anything.\<close>

definition RealtimeMeasureThread_init ::
  "exn option \<Rightarrow> string \<Rightarrow> real \<Rightarrow> bool \<Rightarrow> rt_thread" where
  "RealtimeMeasureThread_init getattr_smu smu_name interval0 simulation_mode0 =
     \<lparr>smu = (case getattr_smu of None \<Rightarrow> Some smu_name | Some e \<Rightarrow> None),
      interval = interval0, running = True, time_data = [], voltage_data = [],
      current_data = [], start_time = 0, simulation_mode = simulation_mode0,
      current_voltage = 1.0\<rparr>"





subsection \<open>Reading traces and scripts\<close>

text \<open>What an iteration did.\<close>

fun step_actions :: "'s step \<Rightarrow> action list" where
  "step_actions (Continue acts s) = acts"
| "step_actions (Break acts) = acts"
| "step_actions (Raise acts e) = acts"

text \<open>The UI thread calls \<^verbatim>\<open>stop()\<close> during the iteration.\<close>

definition stops :: "iter_env \<Rightarrow> bool" where
  "stops x \<longleftrightarrow> Stop \<in> set (pre_calls x) \<or> Stop \<in> set (post_calls x)"

text \<open>One of the two reads of the instrument raises.\<close>

definition failed :: "iter_env \<Rightarrow> bool" where
  "failed x \<longleftrightarrow>
     (case v_result x of Inl e \<Rightarrow> True
      | Inr v \<Rightarrow> (case i_result x of Inl e \<Rightarrow> True | Inr i \<Rightarrow> False))"

text \<open>
  The iterations that a loop started with the flag set gets to when nothing but
  \<^verbatim>\<open>stop()\<close> ends it: all up to and including the first one during which
  \<^verbatim>\<open>stop()\<close> is called.
\<close>

fun until_stop :: "iter_env list \<Rightarrow> iter_env list" where
  "until_stop [] = []"
| "until_stop (x # xs) = (if stops x then [x] else x # until_stop xs)"

text \<open>Three entries in a row are true.\<close>

fun three_in_a_row :: "bool list \<Rightarrow> bool" where
  "three_in_a_row (a # b # c # bs) = (a \<and> b \<and> c \<or> three_in_a_row (b # c # bs))"
| "three_in_a_row bs = False"

text \<open>The payloads of the \<^verbatim>\<open>data_sig\<close> emissions of a trace, in order.\<close>

fun payloads :: "action list \<Rightarrow> payload list" where
  "payloads [] = []"
| "payloads (DataSig p # as) = p # payloads as"
| "payloads (a # as) = payloads as"

text \<open>The actions of the UI thread.\<close>

fun ui_action :: "action \<Rightarrow> bool" where
  "ui_action WriteRunning = True"
| "ui_action (Lock t) = (t = UiThread)"
| "ui_action (Unlock t) = (t = UiThread)"
| "ui_action (WriteVoltage v) = True"
| "ui_action a = False"

subsection \<open>Well-formed payload sequences\<close>

text \<open>
  A payload extends the lists \<open>ts\<close>, \<open>vs\<close>, \<open>cs\<close>: it holds them with one more
  sample at the end, and this sample is its \<^verbatim>\<open>last_value\<close>.
\<close>

definition extends :: "real list \<Rightarrow> real list \<Rightarrow> real list \<Rightarrow> payload \<Rightarrow> bool" where
  "extends ts vs cs p \<longleftrightarrow>
     (case last_value p of (t, v, i) \<Rightarrow>
        time p = ts @ [t] \<and> voltage p = vs @ [v] \<and> current p = cs @ [i])"

text \<open>Starting from \<open>ts\<close>, \<open>vs\<close>, \<open>cs\<close>, every payload extends the one before it.\<close>

fun grows :: "real list \<Rightarrow> real list \<Rightarrow> real list \<Rightarrow> payload list \<Rightarrow> bool" where
  "grows ts vs cs [] = True"
| "grows ts vs cs (p # ps) =
     (extends ts vs cs p \<and> grows (time p) (voltage p) (current p) ps)"

text \<open>
  All dictionaries of a run hold the same three list objects, which are created once
  (lines 1146 to 1148 and 1217 to 1219) and appended to before every emission. So what a
  receiver finds in the dictionary \<open>p\<close> when it reads it after the emission of a later
  dictionary \<open>q\<close> of the run, and before the next append, are the lists as \<open>q\<close> has
  them, with the tuple of \<open>p\<close>.
\<close>

definition read_after :: "payload \<Rightarrow> payload \<Rightarrow> payload" where
  "read_after p q =
     \<lparr>time = time q, voltage = voltage q, current = current q, last_value = last_value p\<rparr>"

subsection \<open>Shared attributes and the mutex\<close>






subsection \<open>Sample inputs\<close>

text \<open>
  A connected instrument, the thread that \<^verbatim>\<open>on_start_realtime_clicked\<close> creates for
  it with the default interval, and four iterations: one whose reads return, a later one
  whose reads return other values, one whose first read times out, one during which the
  user presses the stop button.
\<close>

definition sample_keithley :: keithley where
  "sample_keithley =
     \<lparr>connected_attr = AttrValue True, dir_result = Inr [''smua'', ''smub''], has_reset = True\<rparr>"

definition sample_thread :: rt_thread where
  "sample_thread = RealtimeMeasureThread_init None ''smua'' 0.5 False"

definition sample_ok :: iter_env where
  "sample_ok =
     \<lparr>pre_calls = [], post_calls = [], uniform = 0.05, v_result = Inr 1, i_result = Inr 2,
      clock = 10, reset_result = None\<rparr>"

definition sample_later :: iter_env where
  "sample_later = sample_ok\<lparr>v_result := Inr 1.5, i_result := Inr 3, clock := 11\<rparr>"

definition sample_timeout :: iter_env where
  "sample_timeout = sample_ok\<lparr>v_result := Inl (VisaIOError ''VI_ERROR_TMO'')\<rparr>"

definition sample_stop :: iter_env where
  "sample_stop = sample_ok\<lparr>post_calls := [Stop]\<rparr>"

text \<open>The general sweep settings as the constructor leaves them for a two-channel instrument.\<close>

definition sample_settings :: sweep_settings where
  "sample_settings =
     \<lparr>smu_list = [''smua'', ''smub''], t_int = 0.1, t_settling = -1, sweep_type = 0,
      smu_gate = 0, smu_drain = 1\<rparr>"

text \<open>
  A driver whose transfer measurement returns a table (here the number of its
  arguments), whose output measurement times out, and whose IV calls return: the sweep
  list of two points that \<^verbatim>\<open>np.arange\<close> gives from \<open>start\<close> with one step below
  \<open>stop\<close> (and its ZeroDivisionError for a step of 0), a current of a thousandth of each
  voltage, and a table (here the number of its rows). With it the dictionaries that
  \<^verbatim>\<open>on_sweep_clicked\<close> builds for a transfer or output sweep and for an IV sweep from
  0 V to 1 V.
\<close>

definition sample_driver :: "nat driver" where
  "sample_driver =
     \<lparr>transfer_measurement = (\<lambda>args. Inr (length args)),
      output_measurement = (\<lambda>args. Inl (VisaIOError ''VI_ERROR_TMO'')),
      voltage_sweep_single_smu =
        (\<lambda>smu_obj l tInt delay pulsed. Inr (l, map (\<lambda>v. v * 0.001) l)),
      np_arange =
        (\<lambda>start stop stp. if stp = 0 then Inl ZeroDivisionError else Inr [start, start + stp]),
      FETResultTable = (\<lambda>v i ps. Inr (length v)), beep = None, reset = None\<rparr>"

definition sample_transfer_params :: "string \<Rightarrow> params" where
  "sample_transfer_params shape =
     [''sweep_type'' \<mapsto> PStr shape, ''VgStart'' \<mapsto> PNum 0, ''VgStop'' \<mapsto> PNum (-60),
      ''VgStep'' \<mapsto> PNum (-1), ''VdList'' \<mapsto> PList [VdFloat (-5), VdTrailing],
      ''VdStart'' \<mapsto> PNum 0, ''VdStop'' \<mapsto> PNum (-60),
      ''VdStep'' \<mapsto> PNum (-1), ''VgList'' \<mapsto> PList [VdFloat (-5), VdTrailing],
      ''tInt'' \<mapsto> PNum 0.1, ''delay'' \<mapsto> PNum (-1), ''smu_gate'' \<mapsto> PSmu ''smua'',
      ''smu_drain'' \<mapsto> PSmu ''smub'', ''pulsed'' \<mapsto> PBool False]"

definition sample_iv_params :: "real \<Rightarrow> params" where
  "sample_iv_params st =
     [''sweep_type'' \<mapsto> PStr ''iv'', ''VStart'' \<mapsto> PNum 0, ''VStop'' \<mapsto> PNum 1,
      ''VStep'' \<mapsto> PNum st, ''smu_sweep'' \<mapsto> PSmu ''smua'',
      ''tInt'' \<mapsto> PNum 0.1, ''delay'' \<mapsto> PNum (-1), ''smu_gate'' \<mapsto> PSmu ''smua'',
      ''smu_drain'' \<mapsto> PSmu ''smub'', ''pulsed'' \<mapsto> PBool False]"

text \<open>
  The widgets of the sweep tabs with the transfer tab selected, for a line frequency and
  an integration time, and the float quotients that the validation needs at 50 and 60 Hz.
\<close>

definition sample_sweep_gui :: "real \<Rightarrow> real \<Rightarrow> sweep_gui" where
  "sample_sweep_gui freq tInt =
     \<lparr>busy = False, apply_smu_settings = None, tabWidgetSweeps = 0,
      vg_start = 0, vg_stop = -60, vg_step = -1, vd_list = [VdFloat (-5), VdTrailing],
      vd_start = 0, vd_stop = 0, vd_step = 0, vg_list = [],
      v_start = 0, v_stop = 0, v_step = 0, smu_sweep = ''smua'',
      general_sweep_settings =
        \<lparr>smu_list = [''smua'', ''smub''], t_int = tInt, t_settling = -1, sweep_type = 0,
         smu_gate = 0, smu_drain = 1\<rparr>,
      keithley_getattr = (\<lambda>name. None), linefreq = Inr freq\<rparr>"

definition sample_fdiv :: "real \<Rightarrow> real \<Rightarrow> real" where
  "sample_fdiv c x =
     (if c = 0.001 \<and> x = 60 then 2459565876494607 / 2 ^ 67
      else if c = 25.0 \<and> x = 60 then 7505999378950827 / 2 ^ 54
      else if c = 0.001 \<and> x = 50 then 5902958103587057 / 2 ^ 68
      else c / x)"



section \<open>Theorems\<close>

subsection \<open>Strings\<close>

lemma startswith_append: "startswith (p @ s) p"
  by (simp add: startswith_def)

lemma startswith_iff: "startswith s p \<longleftrightarrow> (\<exists>post. s = p @ post)"
proof
  assume "startswith s p"
  then have "s = p @ drop (length p) s"
    by (metis append_take_drop_id startswith_def)
  then show "\<exists>post. s = p @ post" ..
next
  assume "\<exists>post. s = p @ post"
  then show "startswith s p" by (auto simp: startswith_append)
qed

lemma py_in_iff: "py_in sub s \<longleftrightarrow> (\<exists>pre post. s = pre @ sub @ post)"
proof (induction s)
  case Nil
  then show ?case by auto
next
  case (Cons c cs)
  show ?case
  proof
    assume "py_in sub (c # cs)"
    then consider "startswith (c # cs) sub" | "py_in sub cs" by auto
    then show "\<exists>pre post. c # cs = pre @ sub @ post"
    proof cases
      case 1
      then obtain post where "c # cs = sub @ post" by (auto simp: startswith_iff)
      then have "c # cs = [] @ sub @ post" by simp
      then show ?thesis by blast
    next
      case 2
      with Cons.IH obtain pre post where "cs = pre @ sub @ post" by auto
      then have "c # cs = (c # pre) @ sub @ post" by simp
      then show ?thesis by blast
    qed
  next
    assume "\<exists>pre post. c # cs = pre @ sub @ post"
    then obtain pre post where eq: "c # cs = pre @ sub @ post" by auto
    show "py_in sub (c # cs)"
    proof (cases pre)
      case Nil
      with eq have "startswith (c # cs) sub" by (simp add: startswith_append)
      then show ?thesis by simp
    next
      case (Cons d pre')
      with eq have "cs = pre' @ sub @ post" by simp
      with Cons.IH have "py_in sub cs" by blast
      then show ?thesis by simp
    qed
  qed
qed

subsection \<open>The SMU list\<close>

lemma fill_placeholders_eq:
  "fill_placeholders l = l @ replicate (2 - length l) ''--''"
proof (induction l rule: fill_placeholders.induct)
  case (1 smu_list)
  show ?case
  proof (cases "length smu_list < 2")
    case True
    then have r: "replicate (2 - length smu_list) ''--''
        = ''--'' # replicate (2 - length (smu_list @ [''--''])) ''--''"
      by (cases "2 - length smu_list") auto
    have "fill_placeholders smu_list = fill_placeholders (smu_list @ [''--''])"
      using True by (subst fill_placeholders.simps) simp
    also have "\<dots> = (smu_list @ [''--'']) @ replicate (2 - length (smu_list @ [''--''])) ''--''"
      using 1 True by simp
    finally show ?thesis using r by simp
  next
    case False
    then show ?thesis by (subst fill_placeholders.simps) simp
  qed
qed

lemma length_fill_placeholders: "2 \<le> length (fill_placeholders l)"
  by (simp add: fill_placeholders_eq)

text \<open>
  Claim C8. For every keithley object \<^verbatim>\<open>_get_smus\<close> returns a list of at least two
  entries. It is the list of the attribute names that start with "smu" when the device
  does not report itself disconnected and \<^verbatim>\<open>dir\<close> returns, and the default
  \<^verbatim>\<open>["smu1", "smu2"]\<close> when the device is disconnected or an exception is raised; in
  every case the placeholder "--" is appended until the list has two entries (the default
  has two already).
\<close>

theorem get_smus_spec:
  "2 \<le> length (get_smus k)
   \<and> ((connected_attr k = NoAttr \<or> connected_attr k = AttrValue True)
        \<longrightarrow> (\<forall>names. dir_result k = Inr names
               \<longrightarrow> get_smus k = filter (\<lambda>n. startswith n ''smu'') names
                    @ replicate (2 - length (filter (\<lambda>n. startswith n ''smu'') names)) ''--''))
   \<and> (connected_attr k = AttrValue False \<or> (\<exists>e. connected_attr k = AttrRaises e)
        \<or> (\<exists>e. dir_result k = Inl e)
        \<longrightarrow> get_smus k = [''smu1'', ''smu2''])"
proof -
  let ?base = "read_smu_list k"
  have len: "2 \<le> length (get_smus k)"
    by (simp add: get_smus_def length_fill_placeholders)
  have pad: "get_smus k = ?base @ replicate (2 - length ?base) ''--''"
    by (simp add: get_smus_def fill_placeholders_eq)
  have names: "(connected_attr k = NoAttr \<or> connected_attr k = AttrValue True)
      \<longrightarrow> (\<forall>names. dir_result k = Inr names
             \<longrightarrow> ?base = filter (\<lambda>n. startswith n ''smu'') names)"
    by (auto simp: read_smu_list_def)
  have dflt: "connected_attr k = AttrValue False \<or> (\<exists>e. connected_attr k = AttrRaises e)
      \<or> (\<exists>e. dir_result k = Inl e) \<longrightarrow> ?base = [''smu1'', ''smu2'']"
    by (auto simp: read_smu_list_def default_smu_list_def
        split: attr_lookup.splits bool.splits sum.splits)
  have "?base = [''smu1'', ''smu2''] \<Longrightarrow> get_smus k = [''smu1'', ''smu2'']"
    using pad by simp
  with len pad names dflt show ?thesis by metis
qed

theorem get_smus_spec_witness:
  "get_smus \<lparr>connected_attr = AttrValue True,
             dir_result = Inr [''beeper'', ''smua'', ''display''], has_reset = True\<rparr>
     = [''smua'', ''--'']
   \<and> get_smus \<lparr>connected_attr = AttrValue False,
               dir_result = Inr [''smua'', ''smub'', ''smuc''], has_reset = True\<rparr>
     = [''smu1'', ''smu2'']"
  using get_smus_spec [of "\<lparr>connected_attr = AttrValue True,
             dir_result = Inr [''beeper'', ''smua'', ''display''], has_reset = True\<rparr>"]
    get_smus_spec [of "\<lparr>connected_attr = AttrValue False,
               dir_result = Inr [''smua'', ''smub'', ''smuc''], has_reset = True\<rparr>"]
  by (simp add: startswith_def)

subsection \<open>Drain voltages\<close>

text \<open>
  Claim C9. For every string, \<^verbatim>\<open>_string_to_vd\<close> returns the parsed float when the
  string parses as a float; otherwise it returns "trailing" when "trailing" occurs in the
  string as a substring; otherwise it raises ValueError("Invalid drain voltage.").
\<close>

theorem string_to_vd_spec:
  "(\<forall>x. float_py s = Some x \<longrightarrow> string_to_vd float_py s = Inr (VdFloat x))
   \<and> (float_py s = None \<and> (\<exists>pre post. s = pre @ ''trailing'' @ post)
        \<longrightarrow> string_to_vd float_py s = Inr VdTrailing)
   \<and> (float_py s = None \<and> \<not> (\<exists>pre post. s = pre @ ''trailing'' @ post)
        \<longrightarrow> string_to_vd float_py s = Inl (ValueError ''Invalid drain voltage.''))"
  unfolding string_to_vd_def py_in_iff [symmetric] by simp

theorem string_to_vd_spec_witness:
  "string_to_vd (\<lambda>s. if s = ''-5'' then Some (-5) else None) ''-5'' = Inr (VdFloat (-5))
   \<and> string_to_vd (\<lambda>s. if s = ''-5'' then Some (-5) else None) ''a trailing b''
       = Inr VdTrailing
   \<and> string_to_vd (\<lambda>s. if s = ''-5'' then Some (-5) else None) ''trail''
       = Inl (ValueError ''Invalid drain voltage.'')"
proof -
  let ?f = "\<lambda>s. if s = ''-5'' then Some (-5::real) else None"
  have a: "''a trailing b'' = ''a '' @ ''trailing'' @ '' b''" by simp
  have b: "\<not> (\<exists>pre post. ''trail'' = pre @ ''trailing'' @ post)"
  proof
    assume "\<exists>pre post. ''trail'' = pre @ ''trailing'' @ post"
    then obtain pre post where "''trail'' = pre @ ''trailing'' @ post" by blast
    then have "length ''trail'' = length (pre @ ''trailing'' @ post)" by (rule arg_cong)
    then show False by simp
  qed
  have c: "\<exists>pre post. ''a trailing b'' = pre @ ''trailing'' @ post"
    using a by blast
  show ?thesis
    using string_to_vd_spec [of ?f "''-5''"] string_to_vd_spec [of ?f "''a trailing b''"]
      string_to_vd_spec [of ?f "''trail''"] b c
    by simp
qed

subsection \<open>The gate and drain selectors\<close>

lemma gate_changed_sets_drain:
  "length (smu_list s) = 2 \<Longrightarrow> i = 0 \<or> i = 1 \<Longrightarrow> smu_gate s = i \<Longrightarrow>
   on_smu_gate_changed s i = s\<lparr>smu_drain := 1 - i\<rparr>"
  by (auto simp: on_smu_gate_changed.simps smu_drain_setCurrentIndex.simps
      on_smu_drain_changed.simps smu_gate_setCurrentIndex.simps valid_index_def Let_def)

lemma drain_changed_sets_gate:
  "length (smu_list s) = 2 \<Longrightarrow> i = 0 \<or> i = 1 \<Longrightarrow> smu_drain s = i \<Longrightarrow>
   on_smu_drain_changed s i = s\<lparr>smu_gate := 1 - i\<rparr>"
  by (auto simp: on_smu_gate_changed.simps smu_drain_setCurrentIndex.simps
      on_smu_drain_changed.simps smu_gate_setCurrentIndex.simps valid_index_def Let_def)

lemma currentText_distinct:
  assumes "distinct items" and "2 \<le> length items"
  shows "currentText items 0 \<noteq> currentText items 1"
proof (cases items)
  case Nil
  with assms show ?thesis by simp
next
  case outer: (Cons a l)
  show ?thesis
  proof (cases l)
    case Nil
    with outer assms show ?thesis by simp
  next
    case (Cons b r)
    with outer assms show ?thesis by (auto simp: currentText_def)
  qed
qed

text \<open>
  The list of \<^verbatim>\<open>_get_smus\<close> holds no name twice, unless it consists of the two
  placeholders: the names that \<^verbatim>\<open>dir\<close> returns are distinct, and no name that
  starts with "smu" is the placeholder.
\<close>

lemma get_smus_distinct:
  assumes "\<forall>names. dir_result k = Inr names \<longrightarrow> distinct names"
    and "get_smus k \<noteq> [''--'', ''--'']"
  shows "distinct (get_smus k)"
proof -
  let ?base = "read_smu_list k"
  have g: "get_smus k = ?base @ replicate (2 - length ?base) ''--''"
    by (simp add: get_smus_def fill_placeholders_eq)
  have d: "distinct ?base"
    using assms(1)
    by (auto simp: read_smu_list_def default_smu_list_def
        split: attr_lookup.splits bool.splits sum.splits)
  have n: "''--'' \<notin> set ?base"
    by (auto simp: read_smu_list_def default_smu_list_def startswith_def
        split: attr_lookup.splits bool.splits sum.splits)
  consider "length ?base = 0" | "length ?base = 1" | "2 \<le> length ?base" by arith
  then show ?thesis
  proof cases
    case 1
    with g assms(2) show ?thesis by (simp add: numeral_2_eq_2)
  next
    case 2
    then obtain x where "?base = [x]" by (cases ?base) auto
    with g n show ?thesis by auto
  next
    case 3
    with g d show ?thesis by simp
  qed
qed

text \<open>
  Claim C4, as stated: with fewer than three SMUs the gate and the drain selection never
  name the same SMU. This fails for the selection that the constructor of the widget
  restores from the configuration: the two slots are not connected yet, so a
  configuration that names "smua" for the gate and for the drain leaves both selectors on
  "smua", and a sweep started then runs with this SMU as gate and as drain.
\<close>

theorem smu_selectors_exclusive_counterexample:
  "\<not> (length (smu_list (load_defaults_smus sample_settings ''smua'' ''smua'')) < 3
       \<longrightarrow> currentText (smu_list (load_defaults_smus sample_settings ''smua'' ''smua''))
               (smu_gate (load_defaults_smus sample_settings ''smua'' ''smua''))
           \<noteq> currentText (smu_list (load_defaults_smus sample_settings ''smua'' ''smua''))
               (smu_drain (load_defaults_smus sample_settings ''smua'' ''smua'')))
   \<and> on_sweep_clicked sample_fdiv
         ((sample_sweep_gui 50 0.1)\<lparr>general_sweep_settings :=
             load_defaults_smus sample_settings ''smua'' ''smua''\<rparr>)
       = StartsThread
           [''sweep_type'' \<mapsto> PStr ''transfer'', ''VgStart'' \<mapsto> PNum 0,
            ''VgStop'' \<mapsto> PNum (-60), ''VgStep'' \<mapsto> PNum (-1),
            ''VdList'' \<mapsto> PList [VdFloat (-5), VdTrailing], ''tInt'' \<mapsto> PNum 0.1,
            ''delay'' \<mapsto> PNum (-1), ''smu_gate'' \<mapsto> PSmu ''smua'',
            ''smu_drain'' \<mapsto> PSmu ''smua'', ''pulsed'' \<mapsto> PBool False]"
  by (simp add: load_defaults_smus_def sample_settings_def setCurrentText_def currentText_def
      on_sweep_clicked_def sample_sweep_gui_def sample_fdiv_def tab_params_def
      general_params_def t_int_valid_def Let_def)

text \<open>
  Claim C4, amended. With fewer than three SMUs in the list (which has at least two
  entries, as \<^verbatim>\<open>_get_smus\<close> returns it), a change of the gate selector to index 0
  sets the drain selector to index 1, a change to index 1 sets it to index 0, and the same
  holds with the two selectors exchanged. The slot of the other selector, which runs
  inside the change, leaves the changed selector where the user put it. After every such
  change the two indices differ, and so do the two names when the list has no name twice,
  as the list of \<^verbatim>\<open>_get_smus\<close> does unless it consists of two placeholders. This
  holds from every selection, also from the one that \<^verbatim>\<open>load_defaults\<close> restored;
  nothing is said about the selection before the first change.
\<close>

theorem smu_selectors_exclusive:
  assumes "length (smu_list s) < 3" and "2 \<le> length (smu_list s)" and "i = 0 \<or> i = 1"
  shows "(smu_gate s = i \<longrightarrow> on_smu_gate_changed s i = s\<lparr>smu_drain := 1 - i\<rparr>)
       \<and> (smu_drain s = i \<longrightarrow> on_smu_drain_changed s i = s\<lparr>smu_gate := 1 - i\<rparr>)
       \<and> (smu_gate s \<noteq> i \<longrightarrow>
            smu_gate_setCurrentIndex s i = s\<lparr>smu_gate := i, smu_drain := 1 - i\<rparr>
            \<and> smu_gate (smu_gate_setCurrentIndex s i) \<noteq> smu_drain (smu_gate_setCurrentIndex s i)
            \<and> (distinct (smu_list s) \<longrightarrow>
                 currentText (smu_list s) (smu_gate (smu_gate_setCurrentIndex s i))
                 \<noteq> currentText (smu_list s) (smu_drain (smu_gate_setCurrentIndex s i))))
       \<and> (smu_drain s \<noteq> i \<longrightarrow>
            smu_drain_setCurrentIndex s i = s\<lparr>smu_drain := i, smu_gate := 1 - i\<rparr>
            \<and> smu_gate (smu_drain_setCurrentIndex s i) \<noteq> smu_drain (smu_drain_setCurrentIndex s i)
            \<and> (distinct (smu_list s) \<longrightarrow>
                 currentText (smu_list s) (smu_gate (smu_drain_setCurrentIndex s i))
                 \<noteq> currentText (smu_list s) (smu_drain (smu_drain_setCurrentIndex s i))))
       \<and> (\<forall>k. smu_list s = get_smus k
              \<and> (\<forall>names. dir_result k = Inr names \<longrightarrow> distinct names)
              \<and> smu_list s \<noteq> [''--'', ''--'']
            \<longrightarrow> distinct (smu_list s))"
proof -
  have len: "length (smu_list s) = 2" using assms by simp
  have v: "valid_index (smu_list s) i = i"
    using assms(3) len by (auto simp: valid_index_def)
  have g: "smu_gate s \<noteq> i \<Longrightarrow>
      smu_gate_setCurrentIndex s i = s\<lparr>smu_gate := i, smu_drain := 1 - i\<rparr>"
    using assms(3) len v
    by (simp add: smu_gate_setCurrentIndex.simps gate_changed_sets_drain Let_def)
  have d: "smu_drain s \<noteq> i \<Longrightarrow>
      smu_drain_setCurrentIndex s i = s\<lparr>smu_drain := i, smu_gate := 1 - i\<rparr>"
    using assms(3) len v
    by (simp add: smu_drain_setCurrentIndex.simps drain_changed_sets_gate Let_def)
  have idx: "i \<noteq> 1 - i" using assms(3) by auto
  have names: "distinct (smu_list s) \<Longrightarrow>
      currentText (smu_list s) i \<noteq> currentText (smu_list s) (1 - i)"
    using assms(2,3) currentText_distinct [of "smu_list s"] by auto
  have dist: "\<forall>k. smu_list s = get_smus k
              \<and> (\<forall>names. dir_result k = Inr names \<longrightarrow> distinct names)
              \<and> smu_list s \<noteq> [''--'', ''--'']
            \<longrightarrow> distinct (smu_list s)"
    using get_smus_distinct by metis
  have 1: "smu_gate s = i \<longrightarrow> on_smu_gate_changed s i = s\<lparr>smu_drain := 1 - i\<rparr>"
    using assms(3) len by (simp add: gate_changed_sets_drain)
  have 2: "smu_drain s = i \<longrightarrow> on_smu_drain_changed s i = s\<lparr>smu_gate := 1 - i\<rparr>"
    using assms(3) len by (simp add: drain_changed_sets_gate)
  have 3: "smu_gate s \<noteq> i \<longrightarrow>
            smu_gate_setCurrentIndex s i = s\<lparr>smu_gate := i, smu_drain := 1 - i\<rparr>
            \<and> smu_gate (smu_gate_setCurrentIndex s i) \<noteq> smu_drain (smu_gate_setCurrentIndex s i)
            \<and> (distinct (smu_list s) \<longrightarrow>
                 currentText (smu_list s) (smu_gate (smu_gate_setCurrentIndex s i))
                 \<noteq> currentText (smu_list s) (smu_drain (smu_gate_setCurrentIndex s i)))"
    using g idx names by simp
  have 4: "smu_drain s \<noteq> i \<longrightarrow>
            smu_drain_setCurrentIndex s i = s\<lparr>smu_drain := i, smu_gate := 1 - i\<rparr>
            \<and> smu_gate (smu_drain_setCurrentIndex s i) \<noteq> smu_drain (smu_drain_setCurrentIndex s i)
            \<and> (distinct (smu_list s) \<longrightarrow>
                 currentText (smu_list s) (smu_gate (smu_drain_setCurrentIndex s i))
                 \<noteq> currentText (smu_list s) (smu_drain (smu_drain_setCurrentIndex s i)))"
    using d idx [symmetric] names [symmetric] by simp
  from 1 2 3 4 dist show ?thesis by blast
qed

theorem smu_selectors_exclusive_witness:
  "smu_gate_setCurrentIndex sample_settings 1 = sample_settings\<lparr>smu_gate := 1, smu_drain := 0\<rparr>
   \<and> smu_drain_setCurrentIndex sample_settings 0
       = sample_settings\<lparr>smu_drain := 0, smu_gate := 1\<rparr>
   \<and> currentText (smu_list sample_settings) (smu_gate (smu_gate_setCurrentIndex sample_settings 1))
       \<noteq> currentText (smu_list sample_settings)
            (smu_drain (smu_gate_setCurrentIndex sample_settings 1))
   \<and> smu_gate_setCurrentIndex (load_defaults_smus sample_settings ''smua'' ''smua'') 1
       = sample_settings\<lparr>smu_gate := 1, smu_drain := 0\<rparr>"
proof -
  let ?s = sample_settings
  let ?l = "load_defaults_smus sample_settings ''smua'' ''smua''"
  have len: "length (smu_list ?s) < 3" "2 \<le> length (smu_list ?s)"
    "length (smu_list ?l) < 3" "2 \<le> length (smu_list ?l)"
    by (simp_all add: sample_settings_def load_defaults_smus_def)
  have i: "(1::int) = 0 \<or> (1::int) = 1" "(0::int) = 0 \<or> (0::int) = 1" by simp_all
  have st: "smu_gate ?s \<noteq> 1" "smu_drain ?s \<noteq> 0" "distinct (smu_list ?s)" "smu_gate ?l \<noteq> 1"
    by (simp_all add: sample_settings_def load_defaults_smus_def setCurrentText_def)
  note a = smu_selectors_exclusive [OF len(1,2) i(1)]
  note b = smu_selectors_exclusive [OF len(1,2) i(2)]
  note c = smu_selectors_exclusive [OF len(3,4) i(1)]
  have l: "?l\<lparr>smu_gate := 1, smu_drain := 1 - 1\<rparr> = ?s\<lparr>smu_gate := 1, smu_drain := 0\<rparr>"
    by (simp add: sample_settings_def load_defaults_smus_def)
  from a st have a': "smu_gate_setCurrentIndex ?s 1 = ?s\<lparr>smu_gate := 1, smu_drain := 1 - 1\<rparr>"
    and a'': "currentText (smu_list ?s) (smu_gate (smu_gate_setCurrentIndex ?s 1))
       \<noteq> currentText (smu_list ?s) (smu_drain (smu_gate_setCurrentIndex ?s 1))"
    by blast+
  from b st have b': "smu_drain_setCurrentIndex ?s 0 = ?s\<lparr>smu_drain := 0, smu_gate := 1 - 0\<rparr>"
    by blast
  from c st have c': "smu_gate_setCurrentIndex ?l 1 = ?l\<lparr>smu_gate := 1, smu_drain := 1 - 1\<rparr>"
    by blast
  from a' a'' b' c' l show ?thesis by simp
qed

subsection \<open>The integration time\<close>

lemma started_reaches_validation:
  assumes "on_sweep_clicked fdiv g = StartsThread p"
  shows "\<exists>freq. reaches_validation g freq \<and> freq \<noteq> 0
           \<and> t_int_valid fdiv freq (t_int (general_sweep_settings g))"
  using assms
  by (auto simp: on_sweep_clicked_def reaches_validation_def tab_params_def
      general_params_def Let_def split: if_splits option.splits sum.splits)

lemma validation_decides:
  assumes "reaches_validation g freq" and "freq \<noteq> 0"
  shows "if t_int_valid fdiv freq (t_int (general_sweep_settings g))
         then \<exists>p. on_sweep_clicked fdiv g = StartsThread p
                \<and> p ''tInt'' = Some (PNum (t_int (general_sweep_settings g)))
         else on_sweep_clicked fdiv g = ShowsDialog ParameterError"
  using assms
  by (auto simp: on_sweep_clicked_def reaches_validation_def tab_params_def
      general_params_def Let_def split: if_splits option.splits sum.splits)

text \<open>
  Claim C5. \<^verbatim>\<open>on_sweep_clicked\<close> starts the measurement thread only when the
  integration time lies strictly between 0.001 / freq and 25.0 / freq, freq being the line
  frequency of the instrument and the two quotients being the floats that Python computes.
  When the validation is reached with an integration time that is not strictly between
  them, the slot shows the parameter-error dialog and starts no thread; with one that is,
  it starts the thread with this integration time.
\<close>

theorem t_int_validated:
  "(\<forall>p. on_sweep_clicked fdiv g = StartsThread p \<longrightarrow>
        (\<exists>freq. linefreq g = Inr freq \<and> freq \<noteq> 0
           \<and> fdiv 0.001 freq < t_int (general_sweep_settings g)
           \<and> t_int (general_sweep_settings g) < fdiv 25.0 freq))
   \<and> (\<forall>freq. reaches_validation g freq \<and> freq \<noteq> 0
          \<and> \<not> (fdiv 0.001 freq < t_int (general_sweep_settings g)
                 \<and> t_int (general_sweep_settings g) < fdiv 25.0 freq)
        \<longrightarrow> on_sweep_clicked fdiv g = ShowsDialog ParameterError)
   \<and> (\<forall>freq. reaches_validation g freq \<and> freq \<noteq> 0
          \<and> fdiv 0.001 freq < t_int (general_sweep_settings g)
          \<and> t_int (general_sweep_settings g) < fdiv 25.0 freq
        \<longrightarrow> (\<exists>p. on_sweep_clicked fdiv g = StartsThread p
               \<and> p ''tInt'' = Some (PNum (t_int (general_sweep_settings g)))))"
proof (intro conjI allI impI)
  fix p assume "on_sweep_clicked fdiv g = StartsThread p"
  from started_reaches_validation [OF this]
  show "\<exists>freq. linefreq g = Inr freq \<and> freq \<noteq> 0
           \<and> fdiv 0.001 freq < t_int (general_sweep_settings g)
           \<and> t_int (general_sweep_settings g) < fdiv 25.0 freq"
    by (auto simp: reaches_validation_def t_int_valid_def)
next
  fix freq
  assume a: "reaches_validation g freq \<and> freq \<noteq> 0
          \<and> \<not> (fdiv 0.001 freq < t_int (general_sweep_settings g)
                 \<and> t_int (general_sweep_settings g) < fdiv 25.0 freq)"
  then have "\<not> t_int_valid fdiv freq (t_int (general_sweep_settings g))"
    by (simp add: t_int_valid_def)
  with a validation_decides [of g freq fdiv]
  show "on_sweep_clicked fdiv g = ShowsDialog ParameterError" by simp
next
  fix freq
  assume a: "reaches_validation g freq \<and> freq \<noteq> 0
          \<and> fdiv 0.001 freq < t_int (general_sweep_settings g)
          \<and> t_int (general_sweep_settings g) < fdiv 25.0 freq"
  then have "t_int_valid fdiv freq (t_int (general_sweep_settings g))"
    by (simp add: t_int_valid_def)
  with a validation_decides [of g freq fdiv]
  show "\<exists>p. on_sweep_clicked fdiv g = StartsThread p
               \<and> p ''tInt'' = Some (PNum (t_int (general_sweep_settings g)))" by simp
qed

text \<open>
  The witness takes the quotients at two line frequencies. At 60 Hz the double of
  \<^verbatim>\<open>0.001 / 60\<close> is \<open>2459565876494607 / 2 ^ 67\<close>, which Python prints as
  \<^verbatim>\<open>1.6666666666666667e-05\<close> and which is larger than 1 / 60000: an integration time
  of exactly this double is rejected. At 50 Hz an integration time of 0.1 s lies between
  the two quotients, whatever their last digit.
\<close>

theorem t_int_validated_witness:
  "(\<exists>p. on_sweep_clicked sample_fdiv (sample_sweep_gui 50 0.1) = StartsThread p
      \<and> p ''tInt'' = Some (PNum 0.1))
   \<and> on_sweep_clicked sample_fdiv (sample_sweep_gui 50 1) = ShowsDialog ParameterError
   \<and> on_sweep_clicked sample_fdiv (sample_sweep_gui 60 (2459565876494607 / 2 ^ 67))
       = ShowsDialog ParameterError"
proof -
  have r: "reaches_validation (sample_sweep_gui f t) f" for f t
    by (simp add: reaches_validation_def sample_sweep_gui_def)
  have ti: "t_int (general_sweep_settings (sample_sweep_gui f t)) = t" for f t
    by (simp add: sample_sweep_gui_def)
  have nz: "(50::real) \<noteq> 0" "(60::real) \<noteq> 0" by simp_all
  have ok: "sample_fdiv 0.001 50 < t_int (general_sweep_settings (sample_sweep_gui 50 0.1))
      \<and> t_int (general_sweep_settings (sample_sweep_gui 50 0.1)) < sample_fdiv 25.0 50"
    by (simp add: ti sample_fdiv_def)
  have bad: "\<not> (sample_fdiv 0.001 50 < t_int (general_sweep_settings (sample_sweep_gui 50 1))
      \<and> t_int (general_sweep_settings (sample_sweep_gui 50 1)) < sample_fdiv 25.0 50)"
    by (simp add: ti sample_fdiv_def)
  have edge: "\<not> (sample_fdiv 0.001 60
        < t_int (general_sweep_settings (sample_sweep_gui 60 (2459565876494607 / 2 ^ 67)))
      \<and> t_int (general_sweep_settings (sample_sweep_gui 60 (2459565876494607 / 2 ^ 67)))
        < sample_fdiv 25.0 60)"
    by (simp add: ti sample_fdiv_def)
  have a: "\<exists>p. on_sweep_clicked sample_fdiv (sample_sweep_gui 50 0.1) = StartsThread p
      \<and> p ''tInt'' = Some (PNum (t_int (general_sweep_settings (sample_sweep_gui 50 0.1))))"
    using t_int_validated [of sample_fdiv "sample_sweep_gui 50 0.1"] r [of 50 "0.1"] ok nz
    by blast
  have b: "on_sweep_clicked sample_fdiv (sample_sweep_gui 50 1) = ShowsDialog ParameterError"
    using t_int_validated [of sample_fdiv "sample_sweep_gui 50 1"] r [of 50 1] bad nz
    by blast
  have c: "on_sweep_clicked sample_fdiv (sample_sweep_gui 60 (2459565876494607 / 2 ^ 67))
      = ShowsDialog ParameterError"
    using t_int_validated [of sample_fdiv "sample_sweep_gui 60 (2459565876494607 / 2 ^ 67)"]
      r [of 60 "2459565876494607 / 2 ^ 67"] edge nz
    by blast
  from a b c show ?thesis by (simp add: ti)
qed

subsection \<open>The sweep thread\<close>

lemma and_then_Inr [simp]: "and_then (Inr x) f = f x"
  by (simp add: and_then_def)

lemma and_then_Inl [simp]: "and_then (Inl e) f = Inl e"
  by (simp add: and_then_def)

lemma run_cases:
  "(\<exists>t. measure_and_reset d ps = Inr t \<and> MeasureThread_run d ps = [Started_sig, Finished_sig t])
   \<or> (\<exists>e. measure_and_reset d ps = Inl e \<and> MeasureThread_run d ps = [Started_sig, Error_sig e])"
  by (cases "measure_and_reset d ps") (simp_all add: MeasureThread_run_def)

lemma one_result_sig: "length (filter is_result_sig (MeasureThread_run d ps)) = 1"
  using run_cases [of d ps] by auto

lemma finished_iff:
  "Finished_sig t \<in> set (MeasureThread_run d ps) \<longleftrightarrow> measure_and_reset d ps = Inr t"
  using run_cases [of d ps] by auto

lemma error_iff:
  "Error_sig e \<in> set (MeasureThread_run d ps) \<longleftrightarrow> measure_and_reset d ps = Inl e"
  using run_cases [of d ps] by auto

text \<open>What "no step raises" means for each sweep shape.\<close>

lemma transfer_steps:
  assumes "ps ''sweep_type'' = Some (PStr ''transfer'')"
    and "param_list ps [''smu_gate'', ''smu_drain'', ''VgStart'', ''VgStop'',
           ''VgStep'', ''VdList'', ''tInt'', ''delay'', ''pulsed''] = Inr args"
  shows "measure_and_reset d ps =
     (case transfer_measurement d args of
        Inl e \<Rightarrow> Inl e
      | Inr t \<Rightarrow> (case beep d of Some e \<Rightarrow> Inl e
                 | None \<Rightarrow> (case reset d of Some e \<Rightarrow> Inl e | None \<Rightarrow> Inr (Some t))))"
  using assms
  by (simp add: measure_and_reset_def run_measurement_def param_def split: sum.splits)

lemma output_steps:
  assumes "ps ''sweep_type'' = Some (PStr ''output'')"
    and "param_list ps [''smu_gate'', ''smu_drain'', ''VdStart'', ''VdStop'',
           ''VdStep'', ''VgList'', ''tInt'', ''delay'', ''pulsed''] = Inr args"
  shows "measure_and_reset d ps =
     (case output_measurement d args of
        Inl e \<Rightarrow> Inl e
      | Inr t \<Rightarrow> (case beep d of Some e \<Rightarrow> Inl e
                 | None \<Rightarrow> (case reset d of Some e \<Rightarrow> Inl e | None \<Rightarrow> Inr (Some t))))"
  using assms
  by (simp add: measure_and_reset_def run_measurement_def param_def split: sum.splits)

lemma iv_steps:
  assumes "ps ''sweep_type'' = Some (PStr ''iv'')"
  shows "measure_and_reset d ps =
     (case iv_sweep d ps of
        Inl e \<Rightarrow> Inl e
      | Inr t \<Rightarrow> (case beep d of Some e \<Rightarrow> Inl e
                 | None \<Rightarrow> (case reset d of Some e \<Rightarrow> Inl e | None \<Rightarrow> Inr (Some t))))"
  using assms
  by (simp add: measure_and_reset_def run_measurement_def param_def split: sum.splits)

text \<open>The IV sweep on a dictionary as \<^verbatim>\<open>on_sweep_clicked\<close> builds it.\<close>

lemma iv_sweep_calls:
  assumes "ps ''VStart'' = Some (PNum a)" and "ps ''VStop'' = Some (PNum b)"
    and "ps ''VStep'' = Some (PNum st)" and "ps ''smu_sweep'' = Some sm"
    and "ps ''tInt'' = Some tInt" and "ps ''delay'' = Some delay"
    and "ps ''pulsed'' = Some pulsed"
  shows "iv_sweep d ps =
     (case np_arange d a (b + sgn (b - a) * \<bar>st\<bar>) (sgn (b - a) * \<bar>st\<bar>) of
        Inl e \<Rightarrow> Inl e
      | Inr l \<Rightarrow>
         (case voltage_sweep_single_smu d sm (l @ rev l) tInt delay pulsed of
            Inl e \<Rightarrow> Inl e
          | Inr (v, i) \<Rightarrow>
              FETResultTable d v i
                [''sweep_type'' \<mapsto> PStr ''iv'', ''t_int'' \<mapsto> tInt, ''delay'' \<mapsto> delay,
                 ''pulsed'' \<mapsto> pulsed]))"
  using assms
  by (simp add: iv_sweep_def param_def Let_def split: sum.splits prod.splits)

lemma run_of_call:
  assumes "measure_and_reset d ps =
     (case call of
        Inl e \<Rightarrow> Inl e
      | Inr t \<Rightarrow> (case beep d of Some e \<Rightarrow> Inl e
                 | None \<Rightarrow> (case reset d of Some e \<Rightarrow> Inl e | None \<Rightarrow> Inr (Some t))))"
  shows "(\<forall>t. call = Inr t \<and> beep d = None \<and> reset d = None
             \<longrightarrow> MeasureThread_run d ps = [Started_sig, Finished_sig (Some t)])
        \<and> (\<forall>e. call = Inl e \<longrightarrow> MeasureThread_run d ps = [Started_sig, Error_sig e])
        \<and> (\<forall>t e. call = Inr t \<and> beep d = Some e
             \<longrightarrow> MeasureThread_run d ps = [Started_sig, Error_sig e])
        \<and> (\<forall>t e. call = Inr t \<and> beep d = None \<and> reset d = Some e
             \<longrightarrow> MeasureThread_run d ps = [Started_sig, Error_sig e])"
  using assms by (auto simp: MeasureThread_run_def)

text \<open>
  Claim C3. Every run of \<^verbatim>\<open>MeasureThread.run\<close> emits exactly one of its two result
  signals, after \<^verbatim>\<open>started_sig\<close>: \<^verbatim>\<open>finished_sig\<close> with the result table when the
  driver calls of the selected sweep shape, the beep and the reset return, and
  \<^verbatim>\<open>error_sig\<close> with the exception when one of them raises. For the transfer and the
  output sweep the driver call is \<^verbatim>\<open>transfer_measurement\<close> or
  \<^verbatim>\<open>output_measurement\<close> on the nine arguments from the dictionary; for the IV sweep
  the calls are \<^verbatim>\<open>np.arange\<close> from \<open>VStart\<close> to \<open>VStop\<close> plus one signed step,
  \<^verbatim>\<open>voltage_sweep_single_smu\<close> on the forward and reverse sweep list, and the
  constructor of the result table on the voltages and currents it returns.
\<close>

theorem measure_thread_one_result:
  "length (filter is_result_sig (MeasureThread_run d ps)) = 1
   \<and> (\<exists>sig. MeasureThread_run d ps = [Started_sig, sig] \<and> is_result_sig sig)
   \<and> (\<forall>args. (ps ''sweep_type'' = Some (PStr ''transfer'')
          \<and> param_list ps [''smu_gate'', ''smu_drain'', ''VgStart'', ''VgStop'',
               ''VgStep'', ''VdList'', ''tInt'', ''delay'', ''pulsed''] = Inr args
          \<and> call = transfer_measurement d args)
        \<or> (ps ''sweep_type'' = Some (PStr ''output'')
          \<and> param_list ps [''smu_gate'', ''smu_drain'', ''VdStart'', ''VdStop'',
               ''VdStep'', ''VgList'', ''tInt'', ''delay'', ''pulsed''] = Inr args
          \<and> call = output_measurement d args)
        \<longrightarrow>
          (\<forall>t. call = Inr t \<and> beep d = None \<and> reset d = None
             \<longrightarrow> MeasureThread_run d ps = [Started_sig, Finished_sig (Some t)])
        \<and> (\<forall>e. call = Inl e \<longrightarrow> MeasureThread_run d ps = [Started_sig, Error_sig e])
        \<and> (\<forall>t e. call = Inr t \<and> beep d = Some e
             \<longrightarrow> MeasureThread_run d ps = [Started_sig, Error_sig e])
        \<and> (\<forall>t e. call = Inr t \<and> beep d = None \<and> reset d = Some e
             \<longrightarrow> MeasureThread_run d ps = [Started_sig, Error_sig e]))
   \<and> (\<forall>a b st sm tInt delay pulsed.
         ps ''sweep_type'' = Some (PStr ''iv'')
         \<and> ps ''VStart'' = Some (PNum a) \<and> ps ''VStop'' = Some (PNum b)
         \<and> ps ''VStep'' = Some (PNum st) \<and> ps ''smu_sweep'' = Some sm
         \<and> ps ''tInt'' = Some tInt \<and> ps ''delay'' = Some delay \<and> ps ''pulsed'' = Some pulsed
        \<longrightarrow>
          (\<forall>e. np_arange d a (b + sgn (b - a) * \<bar>st\<bar>) (sgn (b - a) * \<bar>st\<bar>) = Inl e
             \<longrightarrow> MeasureThread_run d ps = [Started_sig, Error_sig e])
        \<and> (\<forall>l. np_arange d a (b + sgn (b - a) * \<bar>st\<bar>) (sgn (b - a) * \<bar>st\<bar>) = Inr l
             \<longrightarrow>
               (\<forall>e. voltage_sweep_single_smu d sm (l @ rev l) tInt delay pulsed = Inl e
                  \<longrightarrow> MeasureThread_run d ps = [Started_sig, Error_sig e])
             \<and> (\<forall>v i. voltage_sweep_single_smu d sm (l @ rev l) tInt delay pulsed
                         = Inr (v, i)
                  \<longrightarrow>
                    (\<forall>e. FETResultTable d v i
                            [''sweep_type'' \<mapsto> PStr ''iv'', ''t_int'' \<mapsto> tInt,
                             ''delay'' \<mapsto> delay, ''pulsed'' \<mapsto> pulsed] = Inl e
                       \<longrightarrow> MeasureThread_run d ps = [Started_sig, Error_sig e])
                  \<and> (\<forall>t. FETResultTable d v i
                            [''sweep_type'' \<mapsto> PStr ''iv'', ''t_int'' \<mapsto> tInt,
                             ''delay'' \<mapsto> delay, ''pulsed'' \<mapsto> pulsed] = Inr t
                       \<longrightarrow>
                         (beep d = None \<and> reset d = None
                            \<longrightarrow> MeasureThread_run d ps
                                 = [Started_sig, Finished_sig (Some t)])
                       \<and> (\<forall>e. beep d = Some e
                            \<longrightarrow> MeasureThread_run d ps = [Started_sig, Error_sig e])
                       \<and> (\<forall>e. beep d = None \<and> reset d = Some e
                            \<longrightarrow> MeasureThread_run d ps = [Started_sig, Error_sig e])))))"
proof (intro conjI)
  show "length (filter is_result_sig (MeasureThread_run d ps)) = 1"
    by (rule one_result_sig)
  show "\<exists>sig. MeasureThread_run d ps = [Started_sig, sig] \<and> is_result_sig sig"
    using run_cases [of d ps] by auto
  show "\<forall>args. (ps ''sweep_type'' = Some (PStr ''transfer'')
          \<and> param_list ps [''smu_gate'', ''smu_drain'', ''VgStart'', ''VgStop'',
               ''VgStep'', ''VdList'', ''tInt'', ''delay'', ''pulsed''] = Inr args
          \<and> call = transfer_measurement d args)
        \<or> (ps ''sweep_type'' = Some (PStr ''output'')
          \<and> param_list ps [''smu_gate'', ''smu_drain'', ''VdStart'', ''VdStop'',
               ''VdStep'', ''VgList'', ''tInt'', ''delay'', ''pulsed''] = Inr args
          \<and> call = output_measurement d args)
        \<longrightarrow>
          (\<forall>t. call = Inr t \<and> beep d = None \<and> reset d = None
             \<longrightarrow> MeasureThread_run d ps = [Started_sig, Finished_sig (Some t)])
        \<and> (\<forall>e. call = Inl e \<longrightarrow> MeasureThread_run d ps = [Started_sig, Error_sig e])
        \<and> (\<forall>t e. call = Inr t \<and> beep d = Some e
             \<longrightarrow> MeasureThread_run d ps = [Started_sig, Error_sig e])
        \<and> (\<forall>t e. call = Inr t \<and> beep d = None \<and> reset d = Some e
             \<longrightarrow> MeasureThread_run d ps = [Started_sig, Error_sig e])"
  proof (intro allI impI)
    fix args
    assume "(ps ''sweep_type'' = Some (PStr ''transfer'')
          \<and> param_list ps [''smu_gate'', ''smu_drain'', ''VgStart'', ''VgStop'',
               ''VgStep'', ''VdList'', ''tInt'', ''delay'', ''pulsed''] = Inr args
          \<and> call = transfer_measurement d args)
        \<or> (ps ''sweep_type'' = Some (PStr ''output'')
          \<and> param_list ps [''smu_gate'', ''smu_drain'', ''VdStart'', ''VdStop'',
               ''VdStep'', ''VgList'', ''tInt'', ''delay'', ''pulsed''] = Inr args
          \<and> call = output_measurement d args)"
    then have "measure_and_reset d ps =
       (case call of
          Inl e \<Rightarrow> Inl e
        | Inr t \<Rightarrow> (case beep d of Some e \<Rightarrow> Inl e
                   | None \<Rightarrow> (case reset d of Some e \<Rightarrow> Inl e | None \<Rightarrow> Inr (Some t))))"
      using transfer_steps [of ps args d] output_steps [of ps args d] by blast
    then show "(\<forall>t. call = Inr t \<and> beep d = None \<and> reset d = None
             \<longrightarrow> MeasureThread_run d ps = [Started_sig, Finished_sig (Some t)])
        \<and> (\<forall>e. call = Inl e \<longrightarrow> MeasureThread_run d ps = [Started_sig, Error_sig e])
        \<and> (\<forall>t e. call = Inr t \<and> beep d = Some e
             \<longrightarrow> MeasureThread_run d ps = [Started_sig, Error_sig e])
        \<and> (\<forall>t e. call = Inr t \<and> beep d = None \<and> reset d = Some e
             \<longrightarrow> MeasureThread_run d ps = [Started_sig, Error_sig e])"
      by (rule run_of_call)
  qed
  show "\<forall>a b st sm tInt delay pulsed.
         ps ''sweep_type'' = Some (PStr ''iv'')
         \<and> ps ''VStart'' = Some (PNum a) \<and> ps ''VStop'' = Some (PNum b)
         \<and> ps ''VStep'' = Some (PNum st) \<and> ps ''smu_sweep'' = Some sm
         \<and> ps ''tInt'' = Some tInt \<and> ps ''delay'' = Some delay \<and> ps ''pulsed'' = Some pulsed
        \<longrightarrow>
          (\<forall>e. np_arange d a (b + sgn (b - a) * \<bar>st\<bar>) (sgn (b - a) * \<bar>st\<bar>) = Inl e
             \<longrightarrow> MeasureThread_run d ps = [Started_sig, Error_sig e])
        \<and> (\<forall>l. np_arange d a (b + sgn (b - a) * \<bar>st\<bar>) (sgn (b - a) * \<bar>st\<bar>) = Inr l
             \<longrightarrow>
               (\<forall>e. voltage_sweep_single_smu d sm (l @ rev l) tInt delay pulsed = Inl e
                  \<longrightarrow> MeasureThread_run d ps = [Started_sig, Error_sig e])
             \<and> (\<forall>v i. voltage_sweep_single_smu d sm (l @ rev l) tInt delay pulsed
                         = Inr (v, i)
                  \<longrightarrow>
                    (\<forall>e. FETResultTable d v i
                            [''sweep_type'' \<mapsto> PStr ''iv'', ''t_int'' \<mapsto> tInt,
                             ''delay'' \<mapsto> delay, ''pulsed'' \<mapsto> pulsed] = Inl e
                       \<longrightarrow> MeasureThread_run d ps = [Started_sig, Error_sig e])
                  \<and> (\<forall>t. FETResultTable d v i
                            [''sweep_type'' \<mapsto> PStr ''iv'', ''t_int'' \<mapsto> tInt,
                             ''delay'' \<mapsto> delay, ''pulsed'' \<mapsto> pulsed] = Inr t
                       \<longrightarrow>
                         (beep d = None \<and> reset d = None
                            \<longrightarrow> MeasureThread_run d ps
                                 = [Started_sig, Finished_sig (Some t)])
                       \<and> (\<forall>e. beep d = Some e
                            \<longrightarrow> MeasureThread_run d ps = [Started_sig, Error_sig e])
                       \<and> (\<forall>e. beep d = None \<and> reset d = Some e
                            \<longrightarrow> MeasureThread_run d ps = [Started_sig, Error_sig e]))))"
  proof (intro allI impI)
    fix a b st sm tInt delay pulsed
    assume h: "ps ''sweep_type'' = Some (PStr ''iv'')
         \<and> ps ''VStart'' = Some (PNum a) \<and> ps ''VStop'' = Some (PNum b)
         \<and> ps ''VStep'' = Some (PNum st) \<and> ps ''smu_sweep'' = Some sm
         \<and> ps ''tInt'' = Some tInt \<and> ps ''delay'' = Some delay \<and> ps ''pulsed'' = Some pulsed"
    then have iv: "iv_sweep d ps =
       (case np_arange d a (b + sgn (b - a) * \<bar>st\<bar>) (sgn (b - a) * \<bar>st\<bar>) of
          Inl e \<Rightarrow> Inl e
        | Inr l \<Rightarrow>
           (case voltage_sweep_single_smu d sm (l @ rev l) tInt delay pulsed of
              Inl e \<Rightarrow> Inl e
            | Inr (v, i) \<Rightarrow>
                FETResultTable d v i
                  [''sweep_type'' \<mapsto> PStr ''iv'', ''t_int'' \<mapsto> tInt, ''delay'' \<mapsto> delay,
                   ''pulsed'' \<mapsto> pulsed]))"
      by (intro iv_sweep_calls) simp_all
    from h have "ps ''sweep_type'' = Some (PStr ''iv'')" by simp
    then have "measure_and_reset d ps =
       (case iv_sweep d ps of
          Inl e \<Rightarrow> Inl e
        | Inr t \<Rightarrow> (case beep d of Some e \<Rightarrow> Inl e
                   | None \<Rightarrow> (case reset d of Some e \<Rightarrow> Inl e | None \<Rightarrow> Inr (Some t))))"
      by (rule iv_steps)
    note r = run_of_call [OF this]
    show "(\<forall>e. np_arange d a (b + sgn (b - a) * \<bar>st\<bar>) (sgn (b - a) * \<bar>st\<bar>) = Inl e
             \<longrightarrow> MeasureThread_run d ps = [Started_sig, Error_sig e])
        \<and> (\<forall>l. np_arange d a (b + sgn (b - a) * \<bar>st\<bar>) (sgn (b - a) * \<bar>st\<bar>) = Inr l
             \<longrightarrow>
               (\<forall>e. voltage_sweep_single_smu d sm (l @ rev l) tInt delay pulsed = Inl e
                  \<longrightarrow> MeasureThread_run d ps = [Started_sig, Error_sig e])
             \<and> (\<forall>v i. voltage_sweep_single_smu d sm (l @ rev l) tInt delay pulsed
                         = Inr (v, i)
                  \<longrightarrow>
                    (\<forall>e. FETResultTable d v i
                            [''sweep_type'' \<mapsto> PStr ''iv'', ''t_int'' \<mapsto> tInt,
                             ''delay'' \<mapsto> delay, ''pulsed'' \<mapsto> pulsed] = Inl e
                       \<longrightarrow> MeasureThread_run d ps = [Started_sig, Error_sig e])
                  \<and> (\<forall>t. FETResultTable d v i
                            [''sweep_type'' \<mapsto> PStr ''iv'', ''t_int'' \<mapsto> tInt,
                             ''delay'' \<mapsto> delay, ''pulsed'' \<mapsto> pulsed] = Inr t
                       \<longrightarrow>
                         (beep d = None \<and> reset d = None
                            \<longrightarrow> MeasureThread_run d ps
                                 = [Started_sig, Finished_sig (Some t)])
                       \<and> (\<forall>e. beep d = Some e
                            \<longrightarrow> MeasureThread_run d ps = [Started_sig, Error_sig e])
                       \<and> (\<forall>e. beep d = None \<and> reset d = Some e
                            \<longrightarrow> MeasureThread_run d ps = [Started_sig, Error_sig e]))))"
      using r by (auto simp: iv)
  qed
qed

theorem measure_thread_one_result_witness:
  "MeasureThread_run sample_driver (sample_transfer_params ''transfer'')
     = [Started_sig, Finished_sig (Some 9)]
   \<and> MeasureThread_run sample_driver (sample_transfer_params ''output'')
     = [Started_sig, Error_sig (VisaIOError ''VI_ERROR_TMO'')]
   \<and> MeasureThread_run sample_driver (sample_iv_params 1)
     = [Started_sig, Finished_sig (Some 4)]
   \<and> MeasureThread_run sample_driver (sample_iv_params 0)
     = [Started_sig, Error_sig ZeroDivisionError]"
proof -
  let ?d = sample_driver
  let ?args = "[PSmu ''smua'', PSmu ''smub'', PNum 0, PNum (-60), PNum (-1),
      PList [VdFloat (-5), VdTrailing], PNum 0.1, PNum (-1), PBool False]"
  have t1: "sample_transfer_params ''transfer'' ''sweep_type'' = Some (PStr ''transfer'')"
    and o1: "sample_transfer_params ''output'' ''sweep_type'' = Some (PStr ''output'')"
    by (simp_all add: sample_transfer_params_def)
  have t2: "param_list (sample_transfer_params ''transfer'')
      [''smu_gate'', ''smu_drain'', ''VgStart'', ''VgStop'',
       ''VgStep'', ''VdList'', ''tInt'', ''delay'', ''pulsed''] = Inr ?args"
    by (simp add: param_def sample_transfer_params_def)
  have o2: "param_list (sample_transfer_params ''output'')
      [''smu_gate'', ''smu_drain'', ''VdStart'', ''VdStop'',
       ''VdStep'', ''VgList'', ''tInt'', ''delay'', ''pulsed''] = Inr ?args"
    by (simp add: param_def sample_transfer_params_def)
  have t3: "transfer_measurement ?d ?args = Inr 9"
    and o3: "output_measurement ?d ?args = Inl (VisaIOError ''VI_ERROR_TMO'')"
    and br: "beep ?d = None" "reset ?d = None"
    by (simp_all add: sample_driver_def)
  have a: "MeasureThread_run ?d (sample_transfer_params ''transfer'')
      = [Started_sig, Finished_sig (Some 9)]"
    using measure_thread_one_result [of ?d "sample_transfer_params ''transfer''"
        "transfer_measurement ?d ?args"] t1 t2 t3 br
    by blast
  have b: "MeasureThread_run ?d (sample_transfer_params ''output'')
      = [Started_sig, Error_sig (VisaIOError ''VI_ERROR_TMO'')]"
    using measure_thread_one_result [of ?d "sample_transfer_params ''output''"
        "output_measurement ?d ?args"] o1 o2 o3
    by blast
  have iv: "sample_iv_params st ''sweep_type'' = Some (PStr ''iv'')
         \<and> sample_iv_params st ''VStart'' = Some (PNum 0)
         \<and> sample_iv_params st ''VStop'' = Some (PNum 1)
         \<and> sample_iv_params st ''VStep'' = Some (PNum st)
         \<and> sample_iv_params st ''smu_sweep'' = Some (PSmu ''smua'')
         \<and> sample_iv_params st ''tInt'' = Some (PNum 0.1)
         \<and> sample_iv_params st ''delay'' = Some (PNum (-1))
         \<and> sample_iv_params st ''pulsed'' = Some (PBool False)" for st
    by (simp add: sample_iv_params_def)
  have ar1: "np_arange ?d 0 (1 + sgn (1 - 0) * \<bar>1\<bar>) (sgn (1 - 0) * \<bar>1\<bar>) = Inr [0, 1]"
    by (simp add: sample_driver_def)
  have vs: "voltage_sweep_single_smu ?d (PSmu ''smua'') ([0, 1] @ rev [0, 1]) (PNum 0.1)
      (PNum (-1)) (PBool False) = Inr ([0, 1, 1, 0], [0, 0.001, 0.001, 0])"
    by (simp add: sample_driver_def)
  have ft: "FETResultTable ?d [0, 1, 1, 0] [0, 0.001, 0.001, 0]
      [''sweep_type'' \<mapsto> PStr ''iv'', ''t_int'' \<mapsto> PNum 0.1, ''delay'' \<mapsto> PNum (-1),
       ''pulsed'' \<mapsto> PBool False] = Inr 4"
    by (simp add: sample_driver_def)
  note iv1 = measure_thread_one_result [of ?d "sample_iv_params 1" "Inr 0",
      THEN conjunct2, THEN conjunct2, THEN conjunct2, rule_format, OF iv [of 1]]
  note iv1_swept = iv1 [THEN conjunct2, rule_format, OF ar1, THEN conjunct2, rule_format, OF vs]
  have c: "MeasureThread_run ?d (sample_iv_params 1) = [Started_sig, Finished_sig (Some 4)]"
    using iv1_swept [THEN conjunct2, rule_format, OF ft, THEN conjunct1] br by simp
  have ar0: "np_arange ?d 0 (1 + sgn (1 - 0) * \<bar>0\<bar>) (sgn (1 - 0) * \<bar>0\<bar>)
      = Inl ZeroDivisionError"
    by (simp add: sample_driver_def)
  note iv0 = measure_thread_one_result [of ?d "sample_iv_params 0" "Inr 0",
      THEN conjunct2, THEN conjunct2, THEN conjunct2, rule_format, OF iv [of 0]]
  have e: "MeasureThread_run ?d (sample_iv_params 0) = [Started_sig, Error_sig ZeroDivisionError]"
    using iv0 [THEN conjunct1, rule_format, OF ar0] .
  from a b c e show ?thesis by simp
qed

subsection \<open>The real-time thread: calls of the UI thread, loops, traces\<close>

lemma ui_action_iff:
  "ui_action a \<longleftrightarrow> a = WriteRunning \<or> a = Lock UiThread \<or> a = Unlock UiThread
     \<or> (\<exists>v. a = WriteVoltage v)"
  by (cases a) auto

lemma fst_ui_calls_Cons:
  "fst (ui_calls (c # cs) s) = fst (call_from_ui c s) @ fst (ui_calls cs (snd (call_from_ui c s)))"
  by (simp add: split_def Let_def)

lemma snd_ui_calls_Cons:
  "snd (ui_calls (c # cs) s) = snd (ui_calls cs (snd (call_from_ui c s)))"
  by (simp add: split_def Let_def)

lemma call_from_ui_running: "running (snd (call_from_ui c s)) \<longleftrightarrow> running s \<and> c \<noteq> Stop"
  by (cases c) (simp_all add: stop_def update_simulation_voltage_def)

lemma ui_calls_running:
  "running (snd (ui_calls cs s)) \<longleftrightarrow> running s \<and> Stop \<notin> set cs"
  by (induction cs arbitrary: s) (auto simp: snd_ui_calls_Cons call_from_ui_running simp del: ui_calls.simps(2))

lemma call_from_ui_fields:
  "interval (snd (call_from_ui c s)) = interval s
   \<and> time_data (snd (call_from_ui c s)) = time_data s
   \<and> voltage_data (snd (call_from_ui c s)) = voltage_data s
   \<and> current_data (snd (call_from_ui c s)) = current_data s
   \<and> start_time (snd (call_from_ui c s)) = start_time s"
  by (cases c) (simp_all add: stop_def update_simulation_voltage_def)

lemma ui_calls_fields:
  "interval (snd (ui_calls cs s)) = interval s
   \<and> time_data (snd (ui_calls cs s)) = time_data s
   \<and> voltage_data (snd (ui_calls cs s)) = voltage_data s
   \<and> current_data (snd (ui_calls cs s)) = current_data s
   \<and> start_time (snd (ui_calls cs s)) = start_time s"
  by (induction cs arbitrary: s) (simp_all add: snd_ui_calls_Cons call_from_ui_fields del: ui_calls.simps(2))

lemma call_from_ui_actions: "a \<in> set (fst (call_from_ui c s)) \<Longrightarrow> ui_action a"
  by (cases c) (auto simp: stop_def update_simulation_voltage_def ui_action_iff)

lemma ui_calls_actions: "a \<in> set (fst (ui_calls cs s)) \<Longrightarrow> ui_action a"
  by (induction cs arbitrary: s)
     (auto simp: fst_ui_calls_Cons call_from_ui_actions simp del: ui_calls.simps(2))

lemma sim_iteration_no_finished: "FinishedSig \<notin> set (step_actions (sim_iteration s t x))"
  by (auto simp: sim_iteration_def sleep_def Let_def split_def ui_action_iff
      dest!: ui_calls_actions split: sum.splits)


lemma sim_loop_not_running: "\<not> running s \<Longrightarrow> sim_loop s t xs = ([Poll False], Exited)"
  by (cases xs) simp_all


lemma real_loop_not_running: "\<not> running s \<Longrightarrow> real_loop k s c xs = ([Poll False], Exited)"
  by (cases xs) simp_all

lemma sim_loop_Continue:
  "running s \<Longrightarrow> sim_iteration s t x = Continue acts (s', t') \<Longrightarrow>
   sim_loop s t (x # xs)
     = (Poll True # acts @ fst (sim_loop s' t' xs), snd (sim_loop s' t' xs))"
  by (simp add: split_def Let_def)

lemma sim_loop_Break:
  "running s \<Longrightarrow> sim_iteration s t x = Break acts \<Longrightarrow>
   sim_loop s t (x # xs) = (Poll True # acts, Exited)"
  by simp

lemma sim_loop_Raise:
  "running s \<Longrightarrow> sim_iteration s t x = Raise acts e \<Longrightarrow>
   sim_loop s t (x # xs) = (Poll True # acts, Raised e)"
  by simp

lemma real_loop_Continue:
  "running s \<Longrightarrow> real_iteration k s c x = Continue acts (s', c') \<Longrightarrow>
   real_loop k s c (x # xs)
     = (Poll True # acts @ fst (real_loop k s' c' xs), snd (real_loop k s' c' xs))"
  by (simp add: split_def Let_def)

lemma real_loop_Break:
  "running s \<Longrightarrow> real_iteration k s c x = Break acts \<Longrightarrow>
   real_loop k s c (x # xs) = (Poll True # acts, Exited)"
  by simp

lemma real_loop_Raise:
  "running s \<Longrightarrow> real_iteration k s c x = Raise acts e \<Longrightarrow>
   real_loop k s c (x # xs) = (Poll True # acts, Raised e)"
  by simp

declare sim_loop.simps(2) [simp del] real_loop.simps(2) [simp del]

lemma sim_loop_all:
  assumes step: "\<And>s t x a. a \<in> set (step_actions (sim_iteration s t x)) \<Longrightarrow> P a"
    and poll: "\<And>b. P (Poll b)"
  shows "a \<in> set (fst (sim_loop s t xs)) \<Longrightarrow> P a"
proof (induction xs arbitrary: s t)
  case Nil
  then show ?case using poll by (auto split: if_splits)
next
  case (Cons x xs)
  show ?case
  proof (cases "running s")
    case False
    with Cons.prems poll show ?thesis by (auto simp: sim_loop_not_running)
  next
    case True
    show ?thesis
    proof (cases "sim_iteration s t x")
      case (Continue acts st)
      obtain s' t' where st: "st = (s', t')" by (cases st)
      have "a \<in> {Poll True} \<union> set acts \<union> set (fst (sim_loop s' t' xs))"
        using Cons.prems True Continue st by (auto simp: sim_loop_Continue)
      moreover have "b \<in> set acts \<Longrightarrow> P b" for b
        using step [of b s t x] Continue by simp
      ultimately show ?thesis using poll Cons.IH [of s' t'] by auto
    next
      case (Break acts)
      with Cons.prems True step [of a s t x] poll show ?thesis
        by (auto simp: sim_loop_Break)
    next
      case (Raise acts e)
      with Cons.prems True step [of a s t x] poll show ?thesis
        by (auto simp: sim_loop_Raise)
    qed
  qed
qed

lemma real_loop_all:
  assumes step: "\<And>s c x a. a \<in> set (step_actions (real_iteration k s c x)) \<Longrightarrow> P a"
    and poll: "\<And>b. P (Poll b)"
  shows "a \<in> set (fst (real_loop k s c xs)) \<Longrightarrow> P a"
proof (induction xs arbitrary: s c)
  case Nil
  then show ?case using poll by (auto split: if_splits)
next
  case (Cons x xs)
  show ?case
  proof (cases "running s")
    case False
    with Cons.prems poll show ?thesis by (auto simp: real_loop_not_running)
  next
    case True
    show ?thesis
    proof (cases "real_iteration k s c x")
      case (Continue acts st)
      obtain s' c' where st: "st = (s', c')" by (cases st)
      have "a \<in> {Poll True} \<union> set acts \<union> set (fst (real_loop k s' c' xs))"
        using Cons.prems True Continue st by (auto simp: real_loop_Continue)
      moreover have "b \<in> set acts \<Longrightarrow> P b" for b
        using step [of b s c x] Continue by simp
      ultimately show ?thesis using poll Cons.IH [of s' c'] by auto
    next
      case (Break acts)
      with Cons.prems True step [of a s c x] poll show ?thesis
        by (auto simp: real_loop_Break)
    next
      case (Raise acts e)
      with Cons.prems True step [of a s c x] poll show ?thesis
        by (auto simp: real_loop_Raise)
    qed
  qed
qed

text \<open>The kinds of actions of the two loop bodies.\<close>

lemma sim_iteration_actions:
  "a \<in> set (step_actions (sim_iteration s t x)) \<Longrightarrow>
   ui_action a \<or> a = Lock WorkerThread \<or> a = Unlock WorkerThread
   \<or> (\<exists>v. a = ReadVoltage v) \<or> (\<exists>p. a = DataSig p) \<or> (\<exists>d. a = Sleep d)"
  by (auto simp: sim_iteration_def sleep_def Let_def split_def
      dest!: ui_calls_actions split: sum.splits if_splits)

lemma handle_error_actions:
  "a \<in> set (step_actions (handle_error k x s c acts e)) \<Longrightarrow>
   a \<in> set acts \<or> ui_action a \<or> a = Reset \<or> (\<exists>d. a = Sleep d) \<or> (\<exists>e. a = ErrorSig e)"
  by (auto simp: handle_error_def recovery_def Let_def split_def
      dest!: ui_calls_actions split: exn.splits if_splits option.splits)

lemma real_iteration_actions:
  "a \<in> set (step_actions (real_iteration k s c x)) \<Longrightarrow>
   ui_action a \<or> a = MeasureV \<or> a = MeasureI \<or> a = Reset
   \<or> (\<exists>p. a = DataSig p) \<or> (\<exists>d. a = Sleep d) \<or> (\<exists>e. a = ErrorSig e)"
  by (auto simp: real_iteration_def sleep_def Let_def split_def
      dest!: ui_calls_actions handle_error_actions split: sum.splits if_splits)


text \<open>A call of \<^verbatim>\<open>stop()\<close> during an iteration clears the flag for the next loop head.\<close>

lemma sim_iteration_stops:
  "stops x \<Longrightarrow> sim_iteration s t x = Continue acts (s', t') \<Longrightarrow> \<not> running s'"
  by (auto simp: sim_iteration_def stops_def Let_def split_def append_sample_def
      ui_calls_running split: sum.splits)

lemma handle_error_stops:
  "Stop \<in> set (post_calls x) \<or> \<not> running s \<Longrightarrow>
   handle_error k x s c acts e = Continue acts' (s', c') \<Longrightarrow> \<not> running s'"
  by (auto simp: handle_error_def Let_def split_def ui_calls_running
      split: exn.splits if_splits)

lemma real_iteration_stops:
  "stops x \<Longrightarrow> real_iteration k s c x = Continue acts (s', c') \<Longrightarrow> \<not> running s'"
  by (auto simp: real_iteration_def stops_def Let_def split_def append_sample_def
      ui_calls_running split: sum.splits dest!: handle_error_stops [rotated])

lemma sim_loop_stop_head:
  assumes "stops x"
  shows "sim_loop s t (x # ys) = sim_loop s t [x] \<and> snd (sim_loop s t [x]) \<noteq> StillRunning"
proof (cases "running s")
  case False
  then show ?thesis by (simp add: sim_loop_not_running)
next
  case True
  show ?thesis
  proof (cases "sim_iteration s t x")
    case (Continue acts st)
    obtain s' t' where st: "st = (s', t')" by (cases st)
    with assms Continue have "\<not> running s'" by (auto dest: sim_iteration_stops)
    with True Continue st show ?thesis
      by (simp add: sim_loop_Continue sim_loop_not_running)
  next
    case (Break acts)
    with True show ?thesis by (simp add: sim_loop_Break)
  next
    case (Raise acts e)
    with True show ?thesis by (simp add: sim_loop_Raise)
  qed
qed

lemma sim_loop_stop:
  assumes "stops x"
  shows "sim_loop s t (xs @ x # ys) = sim_loop s t (xs @ [x])
         \<and> snd (sim_loop s t (xs @ [x])) \<noteq> StillRunning"
proof (induction xs arbitrary: s t)
  case Nil
  show ?case using sim_loop_stop_head [OF assms] by simp
next
  case (Cons z zs)
  show ?case
  proof (cases "running s")
    case False
    then show ?thesis by (simp add: sim_loop_not_running)
  next
    case True
    show ?thesis
    proof (cases "sim_iteration s t z")
      case (Continue acts st)
      obtain s' t' where st: "st = (s', t')" by (cases st)
      with True Continue Cons.IH [of s' t'] show ?thesis
        by (simp add: sim_loop_Continue)
    next
      case (Break acts)
      with True show ?thesis by (simp add: sim_loop_Break)
    next
      case (Raise acts e)
      with True show ?thesis by (simp add: sim_loop_Raise)
    qed
  qed
qed

lemma real_loop_stop_head:
  assumes "stops x"
  shows "real_loop k s c (x # ys) = real_loop k s c [x]
         \<and> snd (real_loop k s c [x]) \<noteq> StillRunning"
proof (cases "running s")
  case False
  then show ?thesis by (simp add: real_loop_not_running)
next
  case True
  show ?thesis
  proof (cases "real_iteration k s c x")
    case (Continue acts st)
    obtain s' c' where st: "st = (s', c')" by (cases st)
    with assms Continue have "\<not> running s'" by (auto dest: real_iteration_stops)
    with True Continue st show ?thesis
      by (simp add: real_loop_Continue real_loop_not_running)
  next
    case (Break acts)
    with True show ?thesis by (simp add: real_loop_Break)
  next
    case (Raise acts e)
    with True show ?thesis by (simp add: real_loop_Raise)
  qed
qed

lemma real_loop_stop:
  assumes "stops x"
  shows "real_loop k s c (xs @ x # ys) = real_loop k s c (xs @ [x])
         \<and> snd (real_loop k s c (xs @ [x])) \<noteq> StillRunning"
proof (induction xs arbitrary: s c)
  case Nil
  show ?case using real_loop_stop_head [OF assms] by simp
next
  case (Cons z zs)
  show ?case
  proof (cases "running s")
    case False
    then show ?thesis by (simp add: real_loop_not_running)
  next
    case True
    show ?thesis
    proof (cases "real_iteration k s c z")
      case (Continue acts st)
      obtain s' c' where st: "st = (s', c')" by (cases st)
      with True Continue Cons.IH [of s' c'] show ?thesis
        by (simp add: real_loop_Continue)
    next
      case (Break acts)
      with True show ?thesis by (simp add: real_loop_Break)
    next
      case (Raise acts e)
      with True show ?thesis by (simp add: real_loop_Raise)
    qed
  qed
qed

lemma run_body_stop:
  assumes "stops x"
  shows "run_body k s now (xs @ x # ys) = run_body k s now (xs @ [x])
         \<and> snd (run_body k s now (xs @ [x])) \<noteq> StillRunning"
  using sim_loop_stop [OF assms] real_loop_stop [OF assms]
  by (simp add: run_body_def run_simulation_def
      split: attr_lookup.splits bool.splits option.splits)

lemma sim_loop_actions:
  assumes "a \<in> set (fst (sim_loop s t xs))"
  shows "(\<exists>b. a = Poll b) \<or> ui_action a \<or> a = Lock WorkerThread \<or> a = Unlock WorkerThread
   \<or> (\<exists>v. a = ReadVoltage v) \<or> (\<exists>p. a = DataSig p) \<or> (\<exists>d. a = Sleep d)"
  by (rule sim_loop_all [OF _ _ assms]) (use sim_iteration_actions in blast)+

lemma real_loop_actions:
  assumes "a \<in> set (fst (real_loop k s c xs))"
  shows "(\<exists>b. a = Poll b) \<or> ui_action a \<or> a = MeasureV \<or> a = MeasureI \<or> a = Reset
   \<or> (\<exists>p. a = DataSig p) \<or> (\<exists>d. a = Sleep d) \<or> (\<exists>e. a = ErrorSig e)"
  by (rule real_loop_all [OF _ _ assms]) (use real_iteration_actions in blast)+

lemma run_body_no_finished: "FinishedSig \<notin> set (fst (run_body k s now xs))"
proof -
  have sim: "FinishedSig \<notin> set (fst (sim_loop s' t xs))" for s' t
    using sim_loop_actions [of FinishedSig s' t xs] by (auto simp: ui_action_iff)
  have rl: "FinishedSig \<notin> set (fst (real_loop k s' c xs))" for s' c
    using real_loop_actions [of FinishedSig k s' c xs] by (auto simp: ui_action_iff)
  show ?thesis
    using sim rl
    by (simp add: run_body_def run_simulation_def
        split: attr_lookup.splits bool.splits option.splits)
qed

lemma run_returned:
  "snd (run k s now xs) \<longleftrightarrow> snd (run_body k s now xs) \<noteq> StillRunning"
  by (simp add: run_def split: prod.splits outcome.splits)

text \<open>
  Claim C6. Cancellation is the flag that the loop tests at its head. When \<^verbatim>\<open>stop()\<close>
  is called during an iteration, in simulation or in real-device mode, the run is the same
  whatever the script holds after this iteration: no further iteration is executed, and
  \<^verbatim>\<open>run\<close> returns. When \<^verbatim>\<open>run\<close> returns, however the loop ended,
  \<^verbatim>\<open>finished_sig\<close> is its last action and is emitted nowhere before; while it has
  not returned, \<^verbatim>\<open>finished_sig\<close> has not been emitted.
\<close>

theorem finished_once_and_stop_polled:
  "(snd (run k s now xs) \<longrightarrow>
      (\<exists>tr. fst (run k s now xs) = tr @ [FinishedSig] \<and> FinishedSig \<notin> set tr))
   \<and> (\<not> snd (run k s now xs) \<longrightarrow> FinishedSig \<notin> set (fst (run k s now xs)))
   \<and> (stops x \<longrightarrow> run k s now (xs @ x # ys) = run k s now (xs @ [x])
         \<and> snd (run k s now (xs @ [x])))"
proof (intro conjI impI)
  assume "snd (run k s now xs)"
  then show "\<exists>tr. fst (run k s now xs) = tr @ [FinishedSig] \<and> FinishedSig \<notin> set tr"
    using run_body_no_finished [of k s now xs]
    by (auto simp: run_def split: prod.splits outcome.splits)
next
  assume "\<not> snd (run k s now xs)"
  then show "FinishedSig \<notin> set (fst (run k s now xs))"
    using run_body_no_finished [of k s now xs]
    by (auto simp: run_def split: prod.splits outcome.splits)
next
  assume "stops x"
  then show "run k s now (xs @ x # ys) = run k s now (xs @ [x])"
    using run_body_stop [of x k s now xs ys] by (simp add: run_def)
next
  assume "stops x"
  then show "snd (run k s now (xs @ [x]))"
    using run_body_stop [of x k s now xs ys] by (simp add: run_returned)
qed

theorem finished_once_and_stop_polled_witness:
  "stops sample_stop
   \<and> run sample_keithley sample_thread 0 ([sample_ok] @ sample_stop # [sample_ok, sample_timeout])
       = run sample_keithley sample_thread 0 ([sample_ok] @ [sample_stop])
   \<and> snd (run sample_keithley sample_thread 0 ([sample_ok] @ [sample_stop]))
   \<and> (\<exists>tr. fst (run sample_keithley sample_thread 0 ([sample_ok] @ [sample_stop]))
          = tr @ [FinishedSig] \<and> FinishedSig \<notin> set tr)
   \<and> \<not> snd (run sample_keithley sample_thread 0 [sample_ok])
   \<and> FinishedSig \<notin> set (fst (run sample_keithley sample_thread 0 [sample_ok]))"
proof -
  have s: "stops sample_stop"
    by (simp add: stops_def sample_stop_def sample_ok_def)
  have n: "\<not> snd (run sample_keithley sample_thread 0 [sample_ok])"
    by (simp add: run_def run_body_def real_loop.simps real_iteration_def sleep_def Let_def
        append_sample_def sample_keithley_def sample_thread_def sample_ok_def
        RealtimeMeasureThread_init_def)
  show ?thesis
    using s n
      finished_once_and_stop_polled [of sample_keithley sample_thread 0
        "[sample_ok] @ [sample_stop]" sample_stop "[]"]
      finished_once_and_stop_polled [of sample_keithley sample_thread 0
        "[sample_ok]" sample_stop "[sample_ok, sample_timeout]"]
    by blast
qed

subsection \<open>The error threshold of the real-device loop\<close>

lemma three_in_a_row_False: "three_in_a_row (False # bs) = three_in_a_row bs"
proof (cases bs)
  case Nil
  then show ?thesis by simp
next
  case outer: (Cons b bs')
  then show ?thesis by (cases bs') simp_all
qed

lemma three_in_a_row_skip: "three_in_a_row (a # False # bs) = three_in_a_row bs"
  by (cases bs) (simp_all add: three_in_a_row_False)

lemma three_in_a_row_streak_False:
  "c < 3 \<Longrightarrow> three_in_a_row (replicate c True @ False # bs) = three_in_a_row bs"
proof -
  assume "c < 3"
  then consider "c = 0" | "c = 1" | "c = 2" by arith
  then show ?thesis
    by cases (simp_all add: three_in_a_row_False three_in_a_row_skip numeral_2_eq_2)
qed

lemma three_in_a_row_streak_short: "c < 3 \<Longrightarrow> \<not> three_in_a_row (replicate c True)"
proof -
  assume "c < 3"
  then consider "c = 0" | "c = 1" | "c = 2" by arith
  then show ?thesis by cases (simp_all add: numeral_2_eq_2)
qed

lemma three_in_a_row_streak_full:
  "three_in_a_row (replicate 2 True @ True # bs)"
  by (simp add: numeral_2_eq_2)

lemma failed_cases:
  "failed x \<longleftrightarrow> (\<exists>e. v_result x = Inl e) \<or> (\<exists>v e. v_result x = Inr v \<and> i_result x = Inl e)"
  by (auto simp: failed_def split: sum.splits)

lemma recovery_no_error: "ErrorSig e \<notin> set (recovery k x msg)"
  by (simp add: recovery_def split: option.splits)

lemma handle_error_break:
  assumes "2 \<le> c" and "\<forall>e'. ErrorSig e' \<notin> set acts"
  shows "\<exists>acts' e'. handle_error k x s c acts e = Break (acts' @ [ErrorSig e'])
           \<and> (\<forall>e''. ErrorSig e'' \<notin> set acts')"
  using assms
  by (cases e) (auto simp: handle_error_def max_consecutive_errors_def recovery_no_error Let_def)

lemma handle_error_continue:
  assumes "c < 2" and "\<forall>e'. ErrorSig e' \<notin> set acts"
  shows "\<exists>acts'. handle_error k x s c acts e
            = Continue acts' (snd (ui_calls (post_calls x) s), c + 1)
           \<and> (\<forall>e''. ErrorSig e'' \<notin> set acts')"
  using assms
  by (cases e)
     (auto simp: handle_error_def max_consecutive_errors_def recovery_no_error Let_def split_def
        ui_action_iff dest!: ui_calls_actions)


lemma ui_calls_no_error: "ErrorSig e \<notin> set (fst (ui_calls cs s))"
  using ui_calls_actions [of "ErrorSig e" cs s] by (auto simp: ui_action_iff)

lemma real_iteration_failed_break:
  assumes "failed x" and "2 \<le> c"
  shows "\<exists>acts e. real_iteration k s c x = Break (acts @ [ErrorSig e])
           \<and> (\<forall>e'. ErrorSig e' \<notin> set acts)"
proof -
  let ?s1 = "snd (ui_calls (pre_calls x) s)"
  let ?u1 = "fst (ui_calls (pre_calls x) s)"
  from assms(1) consider e where "v_result x = Inl e"
    | v e where "v_result x = Inr v" "i_result x = Inl e"
    by (auto simp: failed_cases)
  then show ?thesis
  proof cases
    case 1
    then have "real_iteration k s c x = handle_error k x ?s1 c (?u1 @ [MeasureV]) e"
      by (simp add: real_iteration_def split_def Let_def)
    moreover have "\<forall>e'. ErrorSig e' \<notin> set (?u1 @ [MeasureV])"
      by (simp add: ui_calls_no_error)
    ultimately show ?thesis using handle_error_break [OF assms(2)] by simp
  next
    case 2
    then have "real_iteration k s c x
        = handle_error k x ?s1 c (?u1 @ [MeasureV, MeasureI]) e"
      by (simp add: real_iteration_def split_def Let_def)
    moreover have "\<forall>e'. ErrorSig e' \<notin> set (?u1 @ [MeasureV, MeasureI])"
      by (simp add: ui_calls_no_error)
    ultimately show ?thesis using handle_error_break [OF assms(2)] by simp
  qed
qed

lemma real_iteration_failed_continue:
  assumes "failed x" and "c < 2"
  shows "\<exists>acts. real_iteration k s c x
            = Continue acts (snd (ui_calls (post_calls x) (snd (ui_calls (pre_calls x) s))), c + 1)
           \<and> (\<forall>e'. ErrorSig e' \<notin> set acts)"
proof -
  let ?s1 = "snd (ui_calls (pre_calls x) s)"
  let ?u1 = "fst (ui_calls (pre_calls x) s)"
  from assms(1) consider e where "v_result x = Inl e"
    | v e where "v_result x = Inr v" "i_result x = Inl e"
    by (auto simp: failed_cases)
  then show ?thesis
  proof cases
    case 1
    then have "real_iteration k s c x = handle_error k x ?s1 c (?u1 @ [MeasureV]) e"
      by (simp add: real_iteration_def split_def Let_def)
    moreover have "\<forall>e'. ErrorSig e' \<notin> set (?u1 @ [MeasureV])"
      by (simp add: ui_calls_no_error)
    ultimately show ?thesis using handle_error_continue [OF assms(2)] by simp
  next
    case 2
    then have "real_iteration k s c x
        = handle_error k x ?s1 c (?u1 @ [MeasureV, MeasureI]) e"
      by (simp add: real_iteration_def split_def Let_def)
    moreover have "\<forall>e'. ErrorSig e' \<notin> set (?u1 @ [MeasureV, MeasureI])"
      by (simp add: ui_calls_no_error)
    ultimately show ?thesis using handle_error_continue [OF assms(2)] by simp
  qed
qed

lemma real_iteration_ok:
  assumes "\<not> failed x" and "0 \<le> interval s"
  shows "\<exists>acts s'. real_iteration k s c x = Continue acts (s', 0)
           \<and> (\<forall>e'. ErrorSig e' \<notin> set acts)
           \<and> (running s' \<longleftrightarrow> running s \<and> \<not> stops x)
           \<and> interval s' = interval s"
proof -
  from assms(1) obtain v i where vi: "v_result x = Inr v" "i_result x = Inr i"
    by (auto simp: failed_def split: sum.splits)
  show ?thesis
    using vi assms(2)
    by (simp add: real_iteration_def split_def Let_def sleep_def append_sample_def
        ui_calls_fields ui_calls_running ui_calls_no_error stops_def)
qed

lemma after_failed_state:
  "running (snd (ui_calls (post_calls x) (snd (ui_calls (pre_calls x) s))))
     \<longleftrightarrow> running s \<and> \<not> stops x"
  "interval (snd (ui_calls (post_calls x) (snd (ui_calls (pre_calls x) s)))) = interval s"
  by (auto simp: ui_calls_running ui_calls_fields stops_def)


lemma until_stop_Cons_failed:
  "map failed (until_stop (x # xs))
     = failed x # (if stops x then [] else map failed (until_stop xs))"
  by simp

lemma real_loop_verdict:
  assumes "0 \<le> interval s" and "c < 3" and "running s"
  shows "if three_in_a_row (replicate c True @ map failed (until_stop xs))
         then snd (real_loop k s c xs) = Exited
              \<and> (\<exists>tr e. fst (real_loop k s c xs) = tr @ [ErrorSig e]
                     \<and> (\<forall>e'. ErrorSig e' \<notin> set tr))
         else (\<forall>e. ErrorSig e \<notin> set (fst (real_loop k s c xs)))
              \<and> snd (real_loop k s c xs)
                  = (if \<exists>x \<in> set xs. stops x then Exited else StillRunning)"
  using assms
proof (induction xs arbitrary: s c)
  case Nil
  then show ?case by (simp add: three_in_a_row_streak_short)
next
  case (Cons x xs)
  note run = \<open>running s\<close> and iv = \<open>0 \<le> interval s\<close>
  show ?case
  proof (cases "failed x")
    case failed: True
    show ?thesis
    proof (cases "2 \<le> c")
      case True
      with \<open>c < 3\<close> have c: "c = 2" by simp
      from real_iteration_failed_break [OF failed True, of k s]
      obtain acts e where br: "real_iteration k s c x = Break (acts @ [ErrorSig e])"
        and clean: "\<forall>e'. ErrorSig e' \<notin> set acts" by blast
      have loop: "real_loop k s c (x # xs) = ((Poll True # acts) @ [ErrorSig e], Exited)"
        using run br by (simp add: real_loop_Break)
      have "three_in_a_row (replicate c True @ map failed (until_stop (x # xs)))"
        unfolding until_stop_Cons_failed c using failed three_in_a_row_streak_full by simp
      moreover have "\<forall>e'. ErrorSig e' \<notin> set (Poll True # acts)" using clean by simp
      ultimately show ?thesis using loop by (metis fst_conv snd_conv)
    next
      case False
      then have c: "c < 2" by simp
      let ?s' = "snd (ui_calls (post_calls x) (snd (ui_calls (pre_calls x) s)))"
      from real_iteration_failed_continue [OF failed c, of k s]
      obtain acts where co: "real_iteration k s c x = Continue acts (?s', c + 1)"
        and clean: "\<forall>e'. ErrorSig e' \<notin> set acts" by blast
      have loop: "real_loop k s c (x # xs)
          = (Poll True # acts @ fst (real_loop k ?s' (c + 1) xs),
             snd (real_loop k ?s' (c + 1) xs))"
        using run co by (simp add: real_loop_Continue)
      have streak: "replicate c True @ True # bs = replicate (c + 1) True @ bs" for bs
        by (simp add: replicate_app_Cons_same)
      show ?thesis
      proof (cases "stops x")
        case True
        then have "\<not> running ?s'" by (simp add: after_failed_state)
        then have "real_loop k ?s' (c + 1) xs = ([Poll False], Exited)"
          by (rule real_loop_not_running)
        with loop have l: "real_loop k s c (x # xs) = (Poll True # acts @ [Poll False], Exited)"
          by simp
        have e: "replicate c True @ map failed (until_stop (x # xs)) = replicate (Suc c) True"
          using failed True by (simp add: replicate_append_same)
        have "\<not> three_in_a_row (replicate (Suc c) True)"
          using c by (intro three_in_a_row_streak_short) simp
        then have "\<not> three_in_a_row (replicate c True @ map failed (until_stop (x # xs)))"
          unfolding e .
        then show ?thesis using l clean True by simp
      next
        case False
        then have r': "running ?s'" using run by (simp add: after_failed_state)
        have i': "0 \<le> interval ?s'" using iv by (simp add: after_failed_state)
        have c': "c + 1 < 3" using c by simp
        note IH = Cons.IH [OF i' c' r']
        have t: "three_in_a_row (replicate c True @ map failed (until_stop (x # xs)))
            = three_in_a_row (replicate (c + 1) True @ map failed (until_stop xs))"
          unfolding until_stop_Cons_failed using failed False by (simp add: streak)
        show ?thesis
        proof (cases "three_in_a_row (replicate (c + 1) True @ map failed (until_stop xs))")
          case True
          with IH obtain tr e where ex: "snd (real_loop k ?s' (c + 1) xs) = Exited"
            and tr: "fst (real_loop k ?s' (c + 1) xs) = tr @ [ErrorSig e]"
            and cl: "\<forall>e'. ErrorSig e' \<notin> set tr" by auto
          have "fst (real_loop k s c (x # xs)) = (Poll True # acts @ tr) @ [ErrorSig e]"
            using loop tr by simp
          moreover have "\<forall>e'. ErrorSig e' \<notin> set (Poll True # acts @ tr)"
            using clean cl by simp
          moreover have "snd (real_loop k s c (x # xs)) = Exited" using loop ex by simp
          ultimately show ?thesis using t True by metis
        next
          case nt: False
          with IH have "\<forall>e. ErrorSig e \<notin> set (fst (real_loop k ?s' (c + 1) xs))"
            and "snd (real_loop k ?s' (c + 1) xs)
                  = (if \<exists>x \<in> set xs. stops x then Exited else StillRunning)" by auto
          then show ?thesis using t nt loop clean False by simp
        qed
      qed
    qed
  next
    case ok: False
    from real_iteration_ok [OF ok iv, of k c]
    obtain acts s' where co: "real_iteration k s c x = Continue acts (s', 0)"
      and clean: "\<forall>e'. ErrorSig e' \<notin> set acts"
      and r': "running s' \<longleftrightarrow> running s \<and> \<not> stops x"
      and i': "interval s' = interval s" by blast
    have loop: "real_loop k s c (x # xs)
        = (Poll True # acts @ fst (real_loop k s' 0 xs), snd (real_loop k s' 0 xs))"
      using run co by (simp add: real_loop_Continue)
    show ?thesis
    proof (cases "stops x")
      case True
      then have "\<not> running s'" using r' by simp
      then have "real_loop k s' 0 xs = ([Poll False], Exited)"
        by (rule real_loop_not_running)
      with loop have l: "real_loop k s c (x # xs) = (Poll True # acts @ [Poll False], Exited)"
        by simp
      have "\<not> three_in_a_row (replicate c True @ map failed (until_stop (x # xs)))"
        unfolding until_stop_Cons_failed using ok True \<open>c < 3\<close>
        by (simp add: three_in_a_row_streak_False)
      then show ?thesis using l clean True by simp
    next
      case False
      then have run': "running s'" using r' run by simp
      have iv': "0 \<le> interval s'" using i' iv by simp
      have z: "(0::nat) < 3" by simp
      note IH = Cons.IH [OF iv' z run']
      have t: "three_in_a_row (replicate c True @ map failed (until_stop (x # xs)))
          = three_in_a_row (replicate 0 True @ map failed (until_stop xs))"
        unfolding until_stop_Cons_failed using ok False \<open>c < 3\<close>
        by (simp add: three_in_a_row_streak_False)
      show ?thesis
      proof (cases "three_in_a_row (replicate 0 True @ map failed (until_stop xs))")
        case True
        with IH obtain tr e where ex: "snd (real_loop k s' 0 xs) = Exited"
          and tr: "fst (real_loop k s' 0 xs) = tr @ [ErrorSig e]"
          and cl: "\<forall>e'. ErrorSig e' \<notin> set tr" by auto
        have "fst (real_loop k s c (x # xs)) = (Poll True # acts @ tr) @ [ErrorSig e]"
          using loop tr by simp
        moreover have "\<forall>e'. ErrorSig e' \<notin> set (Poll True # acts @ tr)"
          using clean cl by simp
        moreover have "snd (real_loop k s c (x # xs)) = Exited" using loop ex by simp
        ultimately show ?thesis using t True by metis
      next
        case nt: False
        with IH have "\<forall>e. ErrorSig e \<notin> set (fst (real_loop k s' 0 xs))"
          and "snd (real_loop k s' 0 xs)
                = (if \<exists>x \<in> set xs. stops x then Exited else StillRunning)" by auto
        then show ?thesis using t nt loop clean False by simp
      qed
    qed
  qed
qed


lemmas sample_defs = sample_keithley_def sample_thread_def sample_ok_def sample_timeout_def
  sample_stop_def RealtimeMeasureThread_init_def

lemmas run_eval = run_def run_body_def run_simulation_def real_loop.simps sim_loop.simps
  real_iteration_def sim_iteration_def handle_error_def recovery_def
  max_consecutive_errors_def sleep_def Let_def startswith_def stop_def
  update_simulation_voltage_def append_sample_def data_of_def

text \<open>
  Claim C1. In the real-device loop (the instrument is connected, the SMU object exists,
  the interval is not negative, as the spin box of the GUI ensures, and the flag is set
  when the loop starts) the counter of consecutive errors goes up by one with every
  iteration whose read of the voltage or of the current raises and back to zero with every
  iteration whose reads return. \<^verbatim>\<open>error_sig\<close> is emitted exactly when three
  iterations in a row have failed before \<^verbatim>\<open>stop()\<close> is called: the loop then ends
  and \<^verbatim>\<open>run\<close> returns, the error signal being its last action before
  \<^verbatim>\<open>finished_sig\<close>. While there are fewer failures in a row and \<^verbatim>\<open>stop()\<close> is
  not called, the loop goes on and emits no error signal.
\<close>

theorem three_consecutive_errors:
  assumes "\<not> simulation_mode s" and "connected_attr k = AttrValue True"
    and "smu s = Some name" and "0 \<le> interval s" and "running s"
  shows "((\<exists>e. ErrorSig e \<in> set (fst (run k s now xs)))
            \<longleftrightarrow> three_in_a_row (map failed (until_stop xs)))
       \<and> (three_in_a_row (map failed (until_stop xs)) \<longrightarrow>
            snd (run k s now xs)
            \<and> (\<exists>tr e. fst (run k s now xs) = tr @ [ErrorSig e, FinishedSig]
                  \<and> (\<forall>e'. ErrorSig e' \<notin> set tr)))
       \<and> (\<not> three_in_a_row (map failed (until_stop xs)) \<and> (\<forall>x \<in> set xs. \<not> stops x)
            \<longrightarrow> \<not> snd (run k s now xs))
       \<and> (\<forall>s' c x. failed x \<and> c < 2 \<longrightarrow>
            (\<exists>acts s''. real_iteration k s' c x = Continue acts (s'', c + 1)
               \<and> (\<forall>e. ErrorSig e \<notin> set acts)))
       \<and> (\<forall>s' c x. failed x \<and> c = 2 \<longrightarrow>
            (\<exists>acts e. real_iteration k s' c x = Break (acts @ [ErrorSig e])))
       \<and> (\<forall>s' c x. \<not> failed x \<and> 0 \<le> interval s' \<longrightarrow>
            (\<exists>acts s''. real_iteration k s' c x = Continue acts (s'', 0)
               \<and> (\<forall>e. ErrorSig e \<notin> set acts)))"
proof -
  let ?s0 = "s\<lparr>time_data := [], voltage_data := [], current_data := [], start_time := now\<rparr>"
  let ?T = "three_in_a_row (map failed (until_stop xs))"
  have body: "run_body k s now xs = real_loop k ?s0 0 xs"
    using assms by (simp add: run_body_def)
  have "0 \<le> interval ?s0" and "(0::nat) < 3" and "running ?s0" using assms by simp_all
  from real_loop_verdict [OF this, where k = k and xs = xs]
  have v: "if ?T
         then snd (real_loop k ?s0 0 xs) = Exited
              \<and> (\<exists>tr e. fst (real_loop k ?s0 0 xs) = tr @ [ErrorSig e]
                     \<and> (\<forall>e'. ErrorSig e' \<notin> set tr))
         else (\<forall>e. ErrorSig e \<notin> set (fst (real_loop k ?s0 0 xs)))
              \<and> snd (real_loop k ?s0 0 xs)
                  = (if \<exists>x \<in> set xs. stops x then Exited else StillRunning)"
    by simp
  have yes: "snd (run k s now xs)
      \<and> (\<exists>tr e. fst (run k s now xs) = tr @ [ErrorSig e, FinishedSig]
            \<and> (\<forall>e'. ErrorSig e' \<notin> set tr))" if "?T"
  proof -
    from v that obtain tr e where "real_loop k ?s0 0 xs = (tr @ [ErrorSig e], Exited)"
      and "\<forall>e'. ErrorSig e' \<notin> set tr"
      by (metis prod.collapse)
    then show ?thesis by (auto simp: run_def body)
  qed
  have no: "(\<forall>e. ErrorSig e \<notin> set (fst (run k s now xs)))
      \<and> (snd (run k s now xs) \<longleftrightarrow> (\<exists>x \<in> set xs. stops x))" if "\<not> ?T"
  proof -
    from v that have "\<forall>e. ErrorSig e \<notin> set (fst (real_loop k ?s0 0 xs))"
      and "snd (real_loop k ?s0 0 xs)
             = (if \<exists>x \<in> set xs. stops x then Exited else StillRunning)" by auto
    then show ?thesis
      by (cases "real_loop k ?s0 0 xs") (auto simp: run_def body split: if_splits)
  qed
  have 1: "(\<exists>e. ErrorSig e \<in> set (fst (run k s now xs))) \<longleftrightarrow> ?T"
    using yes no by (cases ?T) auto
  have 2: "?T \<longrightarrow> snd (run k s now xs)
            \<and> (\<exists>tr e. fst (run k s now xs) = tr @ [ErrorSig e, FinishedSig]
                  \<and> (\<forall>e'. ErrorSig e' \<notin> set tr))"
    using yes by blast
  have 3: "\<not> ?T \<and> (\<forall>x \<in> set xs. \<not> stops x) \<longrightarrow> \<not> snd (run k s now xs)"
    using no by blast
  have 4: "\<forall>s' c x. failed x \<and> c < 2 \<longrightarrow>
            (\<exists>acts s''. real_iteration k s' c x = Continue acts (s'', c + 1)
               \<and> (\<forall>e. ErrorSig e \<notin> set acts))"
    using real_iteration_failed_continue by blast
  have 5: "\<forall>s' c x. failed x \<and> c = 2 \<longrightarrow>
            (\<exists>acts e. real_iteration k s' c x = Break (acts @ [ErrorSig e]))"
    using real_iteration_failed_break by (metis order_refl)
  have 6: "\<forall>s' c x. \<not> failed x \<and> 0 \<le> interval s' \<longrightarrow>
            (\<exists>acts s''. real_iteration k s' c x = Continue acts (s'', 0)
               \<and> (\<forall>e. ErrorSig e \<notin> set acts))"
    using real_iteration_ok by blast
  from 1 2 3 4 5 6 show ?thesis by blast
qed

theorem three_consecutive_errors_witness:
  "(\<exists>e. ErrorSig e \<in> set (fst (run sample_keithley sample_thread 0
        [sample_ok, sample_timeout, sample_timeout, sample_timeout, sample_ok])))
   \<and> snd (run sample_keithley sample_thread 0
        [sample_ok, sample_timeout, sample_timeout, sample_timeout, sample_ok])
   \<and> \<not> (\<exists>e. ErrorSig e \<in> set (fst (run sample_keithley sample_thread 0
        [sample_timeout, sample_timeout, sample_ok, sample_timeout])))
   \<and> \<not> snd (run sample_keithley sample_thread 0
        [sample_timeout, sample_timeout, sample_ok, sample_timeout])"
proof -
  have a: "\<not> simulation_mode sample_thread" "connected_attr sample_keithley = AttrValue True"
    "smu sample_thread = Some ''smua''" "0 \<le> interval sample_thread" "running sample_thread"
    by (simp_all add: sample_defs)
  have f: "failed sample_timeout" "\<not> failed sample_ok"
    "\<not> stops sample_timeout" "\<not> stops sample_ok"
    by (simp_all add: sample_defs failed_def stops_def)
  have t: "three_in_a_row (map failed (until_stop
        [sample_ok, sample_timeout, sample_timeout, sample_timeout, sample_ok]))"
    using f by simp
  have n: "\<not> three_in_a_row (map failed (until_stop
        [sample_timeout, sample_timeout, sample_ok, sample_timeout]))"
    "\<forall>x \<in> set [sample_timeout, sample_timeout, sample_ok, sample_timeout]. \<not> stops x"
    using f by simp_all
  show ?thesis
    using three_consecutive_errors [OF a, of 0
        "[sample_ok, sample_timeout, sample_timeout, sample_timeout, sample_ok]"]
      three_consecutive_errors [OF a, of 0
        "[sample_timeout, sample_timeout, sample_ok, sample_timeout]"] t n
    by blast
qed

subsection \<open>The payloads of \<^verbatim>\<open>data_sig\<close>\<close>

lemma payloads_append: "payloads (as @ bs) = payloads as @ payloads bs"
  by (induction as rule: payloads.induct) simp_all

lemma payloads_ui_free: "(\<And>a. a \<in> set as \<Longrightarrow> ui_action a) \<Longrightarrow> payloads as = []"
  by (induction as rule: payloads.induct) (auto simp: ui_action_iff)

lemma payloads_ui_calls: "payloads (fst (ui_calls cs s)) = []"
  by (rule payloads_ui_free) (rule ui_calls_actions)

lemma payloads_recovery: "payloads (recovery k x msg) = []"
  by (simp add: recovery_def split: option.splits)

lemma sim_iteration_payload:
  "\<exists>p. payloads (step_actions (sim_iteration s t x)) = [p]
       \<and> extends (time_data s) (voltage_data s) (current_data s) p
       \<and> (\<forall>acts s' t'. sim_iteration s t x = Continue acts (s', t') \<longrightarrow>
            time_data s' = time p \<and> voltage_data s' = voltage p \<and> current_data s' = current p)"
  by (simp add: sim_iteration_def Let_def split_def sleep_def payloads_append
      payloads_ui_calls append_sample_def data_of_def ui_calls_fields extends_def)

lemma handle_error_payload:
  "payloads (step_actions (handle_error k x s c acts e)) = payloads acts
   \<and> (\<forall>acts' s' c'. handle_error k x s c acts e = Continue acts' (s', c') \<longrightarrow>
        time_data s' = time_data s \<and> voltage_data s' = voltage_data s
        \<and> current_data s' = current_data s)"
  by (cases e)
     (auto simp: handle_error_def Let_def split_def payloads_append payloads_ui_calls
        payloads_recovery ui_calls_fields)

lemma real_iteration_payload:
  "(payloads (step_actions (real_iteration k s c x)) = []
      \<and> (\<forall>acts s' c'. real_iteration k s c x = Continue acts (s', c') \<longrightarrow>
           time_data s' = time_data s \<and> voltage_data s' = voltage_data s
           \<and> current_data s' = current_data s))
   \<or> (\<exists>p. payloads (step_actions (real_iteration k s c x)) = [p]
       \<and> extends (time_data s) (voltage_data s) (current_data s) p
       \<and> (\<forall>acts s' c'. real_iteration k s c x = Continue acts (s', c') \<longrightarrow>
            time_data s' = time p \<and> voltage_data s' = voltage p \<and> current_data s' = current p))"
proof (cases "failed x")
  case True
  then consider e where "v_result x = Inl e"
    | v e where "v_result x = Inr v" "i_result x = Inl e"
    by (auto simp: failed_cases)
  then have "payloads (step_actions (real_iteration k s c x)) = []
      \<and> (\<forall>acts s' c'. real_iteration k s c x = Continue acts (s', c') \<longrightarrow>
           time_data s' = time_data s \<and> voltage_data s' = voltage_data s
           \<and> current_data s' = current_data s)"
  proof cases
    case 1
    then show ?thesis
      using handle_error_payload [of k x "snd (ui_calls (pre_calls x) s)" c
          "fst (ui_calls (pre_calls x) s) @ [MeasureV]" e]
      by (simp add: real_iteration_def Let_def split_def payloads_append payloads_ui_calls
          ui_calls_fields)
  next
    case 2
    then show ?thesis
      using handle_error_payload [of k x "snd (ui_calls (pre_calls x) s)" c
          "fst (ui_calls (pre_calls x) s) @ [MeasureV, MeasureI]" e]
      by (simp add: real_iteration_def Let_def split_def payloads_append payloads_ui_calls
          ui_calls_fields)
  qed
  then show ?thesis ..
next
  case False
  then obtain v i where "v_result x = Inr v" "i_result x = Inr i"
    by (auto simp: failed_def split: sum.splits)
  then show ?thesis
    by (simp add: real_iteration_def Let_def split_def sleep_def payloads_append
      payloads_ui_calls append_sample_def data_of_def ui_calls_fields extends_def)
qed


lemma sim_loop_grows:
  "grows (time_data s) (voltage_data s) (current_data s) (payloads (fst (sim_loop s t xs)))"
proof (induction xs arbitrary: s t)
  case Nil
  then show ?case by simp
next
  case (Cons x xs)
  show ?case
  proof (cases "running s")
    case False
    then show ?thesis by (simp add: sim_loop_not_running)
  next
    case True
    from sim_iteration_payload [of s t x]
    obtain p where p: "payloads (step_actions (sim_iteration s t x)) = [p]"
      and ext: "extends (time_data s) (voltage_data s) (current_data s) p"
      and nxt: "\<forall>acts s' t'. sim_iteration s t x = Continue acts (s', t') \<longrightarrow>
            time_data s' = time p \<and> voltage_data s' = voltage p \<and> current_data s' = current p"
      by blast
    show ?thesis
    proof (cases "sim_iteration s t x")
      case (Continue acts st)
      obtain s' t' where st: "st = (s', t')" by (cases st)
      have "payloads (fst (sim_loop s t (x # xs))) = p # payloads (fst (sim_loop s' t' xs))"
        using True Continue st p by (simp add: sim_loop_Continue payloads_append)
      moreover have "grows (time p) (voltage p) (current p) (payloads (fst (sim_loop s' t' xs)))"
        using Cons.IH [of s' t'] nxt Continue st by simp
      ultimately show ?thesis using ext by simp
    next
      case (Break acts)
      with True p ext show ?thesis by (simp add: sim_loop_Break)
    next
      case (Raise acts e)
      with True p ext show ?thesis by (simp add: sim_loop_Raise)
    qed
  qed
qed

lemma real_loop_grows:
  "grows (time_data s) (voltage_data s) (current_data s) (payloads (fst (real_loop k s c xs)))"
proof (induction xs arbitrary: s c)
  case Nil
  then show ?case by simp
next
  case (Cons x xs)
  show ?case
  proof (cases "running s")
    case False
    then show ?thesis by (simp add: real_loop_not_running)
  next
    case True
    from real_iteration_payload [of k s c x]
    consider (none) "payloads (step_actions (real_iteration k s c x)) = []"
        "\<forall>acts s' c'. real_iteration k s c x = Continue acts (s', c') \<longrightarrow>
           time_data s' = time_data s \<and> voltage_data s' = voltage_data s
           \<and> current_data s' = current_data s"
      | (one) p where "payloads (step_actions (real_iteration k s c x)) = [p]"
        "extends (time_data s) (voltage_data s) (current_data s) p"
        "\<forall>acts s' c'. real_iteration k s c x = Continue acts (s', c') \<longrightarrow>
            time_data s' = time p \<and> voltage_data s' = voltage p \<and> current_data s' = current p"
      by blast
    then show ?thesis
    proof cases
      case none
      show ?thesis
      proof (cases "real_iteration k s c x")
        case (Continue acts st)
        obtain s' c' where st: "st = (s', c')" by (cases st)
        have "payloads (fst (real_loop k s c (x # xs))) = payloads (fst (real_loop k s' c' xs))"
          using True Continue st none(1) by (simp add: real_loop_Continue payloads_append)
        moreover have "grows (time_data s) (voltage_data s) (current_data s)
            (payloads (fst (real_loop k s' c' xs)))"
          using Cons.IH [of s' c'] none(2) Continue st by simp
        ultimately show ?thesis by simp
      next
        case (Break acts)
        with True none(1) show ?thesis by (simp add: real_loop_Break)
      next
        case (Raise acts e)
        with True none(1) show ?thesis by (simp add: real_loop_Raise)
      qed
    next
      case (one p)
      show ?thesis
      proof (cases "real_iteration k s c x")
        case (Continue acts st)
        obtain s' c' where st: "st = (s', c')" by (cases st)
        have "payloads (fst (real_loop k s c (x # xs)))
            = p # payloads (fst (real_loop k s' c' xs))"
          using True Continue st one(1) by (simp add: real_loop_Continue payloads_append)
        moreover have "grows (time p) (voltage p) (current p)
            (payloads (fst (real_loop k s' c' xs)))"
          using Cons.IH [of s' c'] one(3) Continue st by simp
        ultimately show ?thesis using one(2) by simp
      next
        case (Break acts)
        with True one show ?thesis by (simp add: real_loop_Break)
      next
        case (Raise acts e)
        with True one show ?thesis by (simp add: real_loop_Raise)
      qed
    qed
  qed
qed

lemma run_body_grows: "grows [] [] [] (payloads (fst (run_body k s now xs)))"
  using sim_loop_grows [of "s\<lparr>time_data := [], voltage_data := [], current_data := [],
      start_time := now\<rparr>" 0 xs]
    real_loop_grows [of "s\<lparr>time_data := [], voltage_data := [], current_data := [],
      start_time := now\<rparr>" k 0 xs]
  by (simp add: run_body_def run_simulation_def
      split: attr_lookup.splits bool.splits option.splits)

lemma run_payloads: "payloads (fst (run k s now xs)) = payloads (fst (run_body k s now xs))"
  by (simp add: run_def payloads_append split: prod.splits outcome.splits)

lemma grows_nth:
  assumes "grows ts vs cs ps" and "length ts = n" and "length vs = n" and "length cs = n"
    and "j < length ps"
  shows "length (time (ps ! j)) = n + j + 1 \<and> length (voltage (ps ! j)) = n + j + 1
       \<and> length (current (ps ! j)) = n + j + 1
       \<and> last_value (ps ! j)
           = (last (time (ps ! j)), last (voltage (ps ! j)), last (current (ps ! j)))"
  using assms
proof (induction ps arbitrary: ts vs cs n j)
  case Nil
  then show ?case by simp
next
  case (Cons p ps)
  obtain t v i where lv: "last_value p = (t, v, i)" by (cases "last_value p")
  from Cons.prems(1) have rest: "grows (time p) (voltage p) (current p) ps" by simp
  from Cons.prems(1) lv
  have p: "time p = ts @ [t]" "voltage p = vs @ [v]" "current p = cs @ [i]"
    by (simp_all add: extends_def)
  show ?case
  proof (cases j)
    case 0
    with p lv Cons.prems show ?thesis by simp
  next
    case (Suc j')
    have "length (time p) = n + 1" "length (voltage p) = n + 1" "length (current p) = n + 1"
      using p Cons.prems by simp_all
    from Cons.IH [OF rest this, of j'] Suc Cons.prems(5) show ?thesis by simp
  qed
qed

lemma grows_Suc:
  assumes "grows ts vs cs ps" and "Suc j < length ps"
  shows "time (ps ! Suc j) = time (ps ! j) @ [fst (last_value (ps ! Suc j))]
       \<and> voltage (ps ! Suc j) = voltage (ps ! j) @ [fst (snd (last_value (ps ! Suc j)))]
       \<and> current (ps ! Suc j) = current (ps ! j) @ [snd (snd (last_value (ps ! Suc j)))]"
  using assms
proof (induction ps arbitrary: ts vs cs j)
  case Nil
  then show ?case by simp
next
  case (Cons p ps)
  from Cons.prems(1) have rest: "grows (time p) (voltage p) (current p) ps" by simp
  show ?case
  proof (cases j)
    case 0
    with Cons.prems(2) obtain q qs where ps: "ps = q # qs" by (cases ps) auto
    with rest 0 show ?thesis by (auto simp: extends_def split: prod.splits)
  next
    case (Suc j')
    with Cons.prems(2) have "Suc j' < length ps" by simp
    from Cons.IH [OF rest this] Suc show ?thesis by simp
  qed
qed

lemma grows_prefix:
  assumes "grows ts vs cs ps" and "j \<le> m" and "m < length ps"
  shows "take (length (time (ps ! j))) (time (ps ! m)) = time (ps ! j)
       \<and> take (length (voltage (ps ! j))) (voltage (ps ! m)) = voltage (ps ! j)
       \<and> take (length (current (ps ! j))) (current (ps ! m)) = current (ps ! j)"
  using assms(2,3)
proof (induction m)
  case 0
  then show ?case by simp
next
  case (Suc m)
  show ?case
  proof (cases "j = Suc m")
    case True
    then show ?thesis by simp
  next
    case False
    with Suc.prems have jm: "j \<le> m" and m: "m < length ps" by simp_all
    note IH = Suc.IH [OF jm m]
    from grows_Suc [OF assms(1) Suc.prems(2)]
    have ext: "time (ps ! Suc m) = time (ps ! m) @ [fst (last_value (ps ! Suc m))]"
      "voltage (ps ! Suc m) = voltage (ps ! m) @ [fst (snd (last_value (ps ! Suc m)))]"
      "current (ps ! Suc m) = current (ps ! m) @ [snd (snd (last_value (ps ! Suc m)))]"
      by simp_all
    have h: "length ys \<le> length xs" if "take (length ys) xs = ys" for xs ys :: "real list"
    proof -
      from that have "length (take (length ys) xs) = length ys" by simp
      then show ?thesis by (simp add: min_def split: if_splits)
    qed
    have le: "length (time (ps ! j)) \<le> length (time (ps ! m))"
      "length (voltage (ps ! j)) \<le> length (voltage (ps ! m))"
      "length (current (ps ! j)) \<le> length (current (ps ! m))"
      using IH h by blast+
    show ?thesis using IH le by (simp add: ext)
  qed
qed

lemma grows_read_after:
  assumes "grows [] [] [] ps" and "j \<le> m" and "m < length ps"
  shows "length (time (read_after (ps ! j) (ps ! m))) = m + 1
       \<and> length (voltage (read_after (ps ! j) (ps ! m))) = m + 1
       \<and> length (current (read_after (ps ! j) (ps ! m))) = m + 1
       \<and> last_value (read_after (ps ! j) (ps ! m))
           = (time (read_after (ps ! j) (ps ! m)) ! j,
              voltage (read_after (ps ! j) (ps ! m)) ! j,
              current (read_after (ps ! j) (ps ! m)) ! j)"
proof -
  from assms have j: "j < length ps" by simp
  note nj = grows_nth [OF assms(1) _ _ _ j, of 0, simplified]
  note nm = grows_nth [OF assms(1) _ _ _ assms(3), of 0, simplified]
  note pre = grows_prefix [OF assms]
  have l: "last xs = xs ! j" if "length xs = Suc j" for xs :: "real list"
    using that by (metis diff_Suc_1 last_conv_nth length_0_conv nat.distinct(1))
  have t: "time (ps ! m) ! j = last (time (ps ! j))"
  proof -
    have "time (ps ! j) ! j = take (Suc j) (time (ps ! m)) ! j" using pre nj by simp
    then show ?thesis using l [of "time (ps ! j)"] nj by simp
  qed
  have v: "voltage (ps ! m) ! j = last (voltage (ps ! j))"
  proof -
    have "voltage (ps ! j) ! j = take (Suc j) (voltage (ps ! m)) ! j" using pre nj by simp
    then show ?thesis using l [of "voltage (ps ! j)"] nj by simp
  qed
  have c: "current (ps ! m) ! j = last (current (ps ! j))"
  proof -
    have "current (ps ! j) ! j = take (Suc j) (current (ps ! m)) ! j" using pre nj by simp
    then show ?thesis using l [of "current (ps ! j)"] nj by simp
  qed
  show ?thesis using nj nm t v c by (simp add: read_after_def)
qed

text \<open>
  Claim C10, as stated: every payload has three lists of equal length, which grow by one
  sample with every emission, and a \<^verbatim>\<open>last_value\<close> that is the triple of their last
  elements. For the dictionary as it is emitted this holds only at the emission. In the
  run below the first dictionary, read after the second one is emitted, holds two
  samples, and its \<^verbatim>\<open>last_value\<close> is the first of them, not the last.
\<close>

theorem payload_last_value_counterexample:
  "\<not> (last_value (read_after
          (payloads (fst (run sample_keithley sample_thread 0 [sample_ok, sample_later])) ! 0)
          (payloads (fst (run sample_keithley sample_thread 0 [sample_ok, sample_later])) ! 1))
       = (last (time (read_after
          (payloads (fst (run sample_keithley sample_thread 0 [sample_ok, sample_later])) ! 0)
          (payloads (fst (run sample_keithley sample_thread 0 [sample_ok, sample_later])) ! 1))),
          last (voltage (read_after
          (payloads (fst (run sample_keithley sample_thread 0 [sample_ok, sample_later])) ! 0)
          (payloads (fst (run sample_keithley sample_thread 0 [sample_ok, sample_later])) ! 1))),
          last (current (read_after
          (payloads (fst (run sample_keithley sample_thread 0 [sample_ok, sample_later])) ! 0)
          (payloads (fst (run sample_keithley sample_thread 0 [sample_ok, sample_later])) ! 1)))))"
  by (simp add: run_eval sample_defs sample_later_def read_after_def)

text \<open>
  Claim C10, amended. In every run, in simulation and in real-device mode, the payloads
  emitted on \<^verbatim>\<open>data_sig\<close> are well formed at their emission: the three lists of the
  \<open>j\<close>-th payload (counted from 0) then have the same length \<open>j + 1\<close>, which is at
  least one; from one emission to the next each list has grown by exactly one sample at
  its end; and \<^verbatim>\<open>last_value\<close> is the triple of the last elements of the three lists.
  The lists are the thread's own: read after the emission of the \<open>m\<close>-th payload, the
  lists of the \<open>j\<close>-th payload have length \<open>m + 1\<close> and its \<^verbatim>\<open>last_value\<close> is the
  triple of their elements at index \<open>j\<close>.
\<close>

theorem payloads_grow:
  "grows [] [] [] (payloads (fst (run k s now xs)))
   \<and> (\<forall>j < length (payloads (fst (run k s now xs))).
        length (time (payloads (fst (run k s now xs)) ! j)) = j + 1
        \<and> length (voltage (payloads (fst (run k s now xs)) ! j)) = j + 1
        \<and> length (current (payloads (fst (run k s now xs)) ! j)) = j + 1
        \<and> last_value (payloads (fst (run k s now xs)) ! j)
            = (last (time (payloads (fst (run k s now xs)) ! j)),
               last (voltage (payloads (fst (run k s now xs)) ! j)),
               last (current (payloads (fst (run k s now xs)) ! j))))
   \<and> (\<forall>j. Suc j < length (payloads (fst (run k s now xs))) \<longrightarrow>
        butlast (time (payloads (fst (run k s now xs)) ! Suc j))
          = time (payloads (fst (run k s now xs)) ! j)
        \<and> butlast (voltage (payloads (fst (run k s now xs)) ! Suc j))
          = voltage (payloads (fst (run k s now xs)) ! j)
        \<and> butlast (current (payloads (fst (run k s now xs)) ! Suc j))
          = current (payloads (fst (run k s now xs)) ! j))
   \<and> (\<forall>j m. j \<le> m \<and> m < length (payloads (fst (run k s now xs))) \<longrightarrow>
        length (time (read_after (payloads (fst (run k s now xs)) ! j)
                  (payloads (fst (run k s now xs)) ! m))) = m + 1
        \<and> length (voltage (read_after (payloads (fst (run k s now xs)) ! j)
                  (payloads (fst (run k s now xs)) ! m))) = m + 1
        \<and> length (current (read_after (payloads (fst (run k s now xs)) ! j)
                  (payloads (fst (run k s now xs)) ! m))) = m + 1
        \<and> last_value (read_after (payloads (fst (run k s now xs)) ! j)
                  (payloads (fst (run k s now xs)) ! m))
            = (time (read_after (payloads (fst (run k s now xs)) ! j)
                  (payloads (fst (run k s now xs)) ! m)) ! j,
               voltage (read_after (payloads (fst (run k s now xs)) ! j)
                  (payloads (fst (run k s now xs)) ! m)) ! j,
               current (read_after (payloads (fst (run k s now xs)) ! j)
                  (payloads (fst (run k s now xs)) ! m)) ! j))"
proof -
  let ?ps = "payloads (fst (run k s now xs))"
  have g: "grows [] [] [] ?ps" by (simp add: run_payloads run_body_grows)
  have n: "\<forall>j < length ?ps.
        length (time (?ps ! j)) = j + 1 \<and> length (voltage (?ps ! j)) = j + 1
        \<and> length (current (?ps ! j)) = j + 1
        \<and> last_value (?ps ! j)
            = (last (time (?ps ! j)), last (voltage (?ps ! j)), last (current (?ps ! j)))"
    using grows_nth [OF g, of 0] by simp
  have b: "\<forall>j. Suc j < length ?ps \<longrightarrow>
        butlast (time (?ps ! Suc j)) = time (?ps ! j)
        \<and> butlast (voltage (?ps ! Suc j)) = voltage (?ps ! j)
        \<and> butlast (current (?ps ! Suc j)) = current (?ps ! j)"
    using grows_Suc [OF g] by simp
  have r: "\<forall>j m. j \<le> m \<and> m < length ?ps \<longrightarrow>
        length (time (read_after (?ps ! j) (?ps ! m))) = m + 1
        \<and> length (voltage (read_after (?ps ! j) (?ps ! m))) = m + 1
        \<and> length (current (read_after (?ps ! j) (?ps ! m))) = m + 1
        \<and> last_value (read_after (?ps ! j) (?ps ! m))
            = (time (read_after (?ps ! j) (?ps ! m)) ! j,
               voltage (read_after (?ps ! j) (?ps ! m)) ! j,
               current (read_after (?ps ! j) (?ps ! m)) ! j)"
    using grows_read_after [OF g] by blast
  from g n b r show ?thesis by blast
qed

theorem payloads_grow_witness:
  "length (payloads (fst (run sample_keithley sample_thread 0
      [sample_ok, sample_timeout, sample_later]))) = 2
   \<and> length (time (payloads (fst (run sample_keithley sample_thread 0
      [sample_ok, sample_timeout, sample_later])) ! 1)) = 2
   \<and> butlast (current (payloads (fst (run sample_keithley sample_thread 0
      [sample_ok, sample_timeout, sample_later])) ! 1))
     = current (payloads (fst (run sample_keithley sample_thread 0
      [sample_ok, sample_timeout, sample_later])) ! 0)
   \<and> length (current (read_after
        (payloads (fst (run sample_keithley sample_thread 0
           [sample_ok, sample_timeout, sample_later])) ! 0)
        (payloads (fst (run sample_keithley sample_thread 0
           [sample_ok, sample_timeout, sample_later])) ! 1))) = 2
   \<and> payloads (fst (run sample_keithley sample_thread 0
        [sample_ok, sample_timeout, sample_later]))
     = [\<lparr>time = [10], voltage = [1], current = [2], last_value = (10, 1, 2)\<rparr>,
        \<lparr>time = [10, 11], voltage = [1, 1.5], current = [2, 3], last_value = (11, 1.5, 3)\<rparr>]
   \<and> length (payloads (fst (run sample_keithley (sample_thread\<lparr>simulation_mode := True\<rparr>) 0
      [sample_ok, sample_ok]))) = 2
   \<and> length (voltage (payloads (fst (run sample_keithley
      (sample_thread\<lparr>simulation_mode := True\<rparr>) 0 [sample_ok, sample_ok])) ! 1)) = 2"
proof -
  let ?real = "payloads (fst (run sample_keithley sample_thread 0
      [sample_ok, sample_timeout, sample_later]))"
  let ?sim = "payloads (fst (run sample_keithley (sample_thread\<lparr>simulation_mode := True\<rparr>) 0
      [sample_ok, sample_ok]))"
  have e: "?real
     = [\<lparr>time = [10], voltage = [1], current = [2], last_value = (10, 1, 2)\<rparr>,
        \<lparr>time = [10, 11], voltage = [1, 1.5], current = [2, 3], last_value = (11, 1.5, 3)\<rparr>]"
    by (simp add: run_eval sample_defs sample_later_def)
  have r: "length ?real = 2" by (simp add: e)
  have s: "length ?sim = 2" by (simp add: run_eval sample_defs)
  have j: "1 < length ?real" "Suc 0 < length ?real" "1 < length ?sim"
    "(0::nat) \<le> 1 \<and> 1 < length ?real"
    using r s by simp_all
  note R = payloads_grow [of sample_keithley sample_thread 0
      "[sample_ok, sample_timeout, sample_later]"]
  note S = payloads_grow [of sample_keithley "sample_thread\<lparr>simulation_mode := True\<rparr>" 0
      "[sample_ok, sample_ok]"]
  have a: "length (time (?real ! 1)) = 2"
    using R [THEN conjunct2, THEN conjunct1, rule_format, OF j(1)] by simp
  have b: "butlast (current (?real ! 1)) = current (?real ! 0)"
    using R [THEN conjunct2, THEN conjunct2, THEN conjunct1, rule_format, OF j(2)] by simp
  have c: "length (current (read_after (?real ! 0) (?real ! 1))) = 2"
    using R [THEN conjunct2, THEN conjunct2, THEN conjunct2, rule_format, OF j(4)] by simp
  have d: "length (voltage (?sim ! 1)) = 2"
    using S [THEN conjunct2, THEN conjunct1, rule_format, OF j(3)] by simp
  from r a b c e s d show ?thesis by blast
qed

subsection \<open>Simulation mode and real-device mode\<close>



lemma not_ui_action [simp]:
  "\<not> ui_action MeasureV" "\<not> ui_action MeasureI" "\<not> ui_action (Poll b)" "\<not> ui_action Reset"
  "\<not> ui_action (DataSig p)" "\<not> ui_action (ErrorSig e)" "\<not> ui_action FinishedSig"
  "\<not> ui_action (Sleep d)" "\<not> ui_action (ReadVoltage v)" "\<not> ui_action (Lock WorkerThread)"
  "\<not> ui_action (Unlock WorkerThread)"
  by (simp_all add: ui_action_iff)





























subsection \<open>The mutex and the attributes that both threads access\<close>

























end
